theory Spec2Isabelle
  imports Main "HOL-Library.Sublist"
begin

section \<open>API base resolution and URL construction (web/lib/api.ts)\<close>

text \<open>
  The module reads two ambient sources: the browser global \<open>window.__RUNTIME_CONFIG__\<close>
  (declared as \<open>{ API_BASE_URL?: string }\<close>, itself optional on \<open>Window\<close>) and
  \<open>process.env.API_BASE_URL\<close>. Both are made explicit as an environment record that
  every function takes. An absent property is \<open>None\<close>; \<open>window = None\<close> is the case
  \<open>typeof window === "undefined"\<close>. JavaScript strings are modelled as \<open>string\<close>.
\<close>

record RuntimeConfig =
  API_BASE_URL :: "string option"

record Window =
  RUNTIME_CONFIG :: "RuntimeConfig option"

record Env =
  window :: "Window option"
  process_env_API_BASE_URL :: "string option"

text \<open>
  \<open>readRuntimeConfig\<close>: \<open>null\<close> outside a browser, otherwise
  \<open>window.__RUNTIME_CONFIG__ || null\<close> (an object is always truthy, so the
  disjunction only turns \<open>undefined\<close> into \<open>null\<close>).
\<close>

definition readRuntimeConfig :: "Env \<Rightarrow> RuntimeConfig option" where
  "readRuntimeConfig e =
     (case window e of
        None \<Rightarrow> None
      | Some w \<Rightarrow> RUNTIME_CONFIG w)"

text \<open>
  JavaScript truthiness of a value of type \<open>string | undefined\<close>: truthy exactly
  when it is a non-empty string. \<open>truthy_string\<close> returns the string when truthy.
\<close>

definition truthy_string :: "string option \<Rightarrow> string option" where
  "truthy_string v =
     (case v of
        None \<Rightarrow> None
      | Some s \<Rightarrow> if s = [] then None else Some s)"

text \<open>The optional chain \<open>runtime?.API_BASE_URL\<close>.\<close>

definition runtime_API_BASE_URL :: "RuntimeConfig option \<Rightarrow> string option" where
  "runtime_API_BASE_URL runtime =
     (case runtime of
        None \<Rightarrow> None
      | Some r \<Rightarrow> API_BASE_URL r)"

definition default_API_BASE_URL :: string where
  "default_API_BASE_URL = ''http://localhost:8004/realtimex''"

definition resolveApiBaseUrl :: "Env \<Rightarrow> string" where
  "resolveApiBaseUrl e =
     (let runtime = readRuntimeConfig e in
      case truthy_string (runtime_API_BASE_URL runtime) of
        Some u \<Rightarrow> u
      | None \<Rightarrow>
          (case truthy_string (process_env_API_BASE_URL e) of
             Some u \<Rightarrow> u
           | None \<Rightarrow> default_API_BASE_URL))"

text \<open>
  String primitives used by \<open>apiUrl\<close> and \<open>wsUrl\<close>:
  \<open>s.startsWith(t)\<close>, \<open>s.endsWith(t)\<close>, \<open>s.slice(0, -1)\<close> (all but the last
  character; the empty string stays empty) and \<open>s.replace(/^lit/, rep)\<close> for a
  literal anchored at the start (replaces the literal when the string begins with it,
  otherwise leaves the string as it is).
\<close>

definition startsWith :: "string \<Rightarrow> string \<Rightarrow> bool" where
  "startsWith s t = prefix t s"

definition endsWith :: "string \<Rightarrow> string \<Rightarrow> bool" where
  "endsWith s t = suffix t s"

definition slice_0_neg1 :: "string \<Rightarrow> string" where
  "slice_0_neg1 s = butlast s"

definition replace_anchored :: "string \<Rightarrow> string \<Rightarrow> string \<Rightarrow> string" where
  "replace_anchored lit rep s =
     (if prefix lit s then rep @ drop (length lit) s else s)"

definition apiUrl :: "Env \<Rightarrow> string \<Rightarrow> string" where
  "apiUrl e path =
     (let baseUrl = resolveApiBaseUrl e;
          normalizedPath = (if startsWith path ''/'' then path else ''/'' @ path);
          base = (if endsWith baseUrl ''/'' then slice_0_neg1 baseUrl else baseUrl)
      in base @ normalizedPath)"

definition wsUrl :: "Env \<Rightarrow> string \<Rightarrow> string" where
  "wsUrl e path =
     (let base = replace_anchored ''https:'' ''wss:''
                   (replace_anchored ''http:'' ''ws:'' (resolveApiBaseUrl e));
          normalizedPath = (if startsWith path ''/'' then path else ''/'' @ path);
          normalizedBase = (if endsWith base ''/'' then slice_0_neg1 base else base)
      in normalizedBase @ normalizedPath)"

text \<open>
  The two normalisations that \<open>apiUrl\<close> and \<open>wsUrl\<close> apply inline, named so that
  the theorems can refer to them: the conditional \<open>slice(0, -1)\<close> on the base and the
  conditional \<open>"/"\<close> prefix on the path.
\<close>

definition strip_trailing_slash :: "string \<Rightarrow> string" where
  "strip_trailing_slash b = (if endsWith b ''/'' then slice_0_neg1 b else b)"

definition ensure_leading_slash :: "string \<Rightarrow> string" where
  "ensure_leading_slash p = (if startsWith p ''/'' then p else ''/'' @ p)"

text \<open>
  \<open>RootLayout\<close> (app/layout.tsx) injects the runtime configuration into the page:
  \<open>{ API_BASE_URL: process.env.API_BASE_URL || "http://localhost:8004/realtimex" }\<close>,
  evaluated on the server.
\<close>

definition RootLayout_runtimeConfig :: "string option \<Rightarrow> RuntimeConfig" where
  "RootLayout_runtimeConfig server_env =
     \<lparr>API_BASE_URL =
        Some (case truthy_string server_env of
                Some u \<Rightarrow> u
              | None \<Rightarrow> default_API_BASE_URL)\<rparr>"

text \<open>Concrete environments used to evaluate the functions.\<close>

definition env_none :: Env where
  "env_none = \<lparr>window = None, process_env_API_BASE_URL = None\<rparr>"

definition env_of_process :: "string \<Rightarrow> Env" where
  "env_of_process u = \<lparr>window = None, process_env_API_BASE_URL = Some u\<rparr>"

definition env_window_only :: Env where
  "env_window_only = \<lparr>window = Some \<lparr>RUNTIME_CONFIG = None\<rparr>, process_env_API_BASE_URL = None\<rparr>"

definition env_browser :: "string \<Rightarrow> string \<Rightarrow> Env" where
  "env_browser u v =
     \<lparr>window = Some \<lparr>RUNTIME_CONFIG = Some \<lparr>API_BASE_URL = Some u\<rparr>\<rparr>,
      process_env_API_BASE_URL = Some v\<rparr>"

section \<open>Research data contracts (types/research.ts)\<close>

text \<open>
  The research types are TypeScript interfaces over JSON values received from the
  event stream. A JSON value is a \<open>jsval\<close>; an object is a finite map from property
  names to values, an absent property being \<open>None\<close>. The representation of
  \<open>number\<close> is left open as the type parameter \<open>'n\<close>: no contract below looks
  inside a number. Each interface becomes the predicate that holds of exactly the
  objects the interface admits: a property declared \<open>k: T\<close> is \<open>required\<close>, a
  property declared \<open>k?: T\<close> is \<open>optional\<close>, a union of string literals is
  \<open>is_literal\<close> of the list of its members, \<open>T[]\<close> is \<open>is_array\<close>, and
  \<open>Record<string, any>\<close> is \<open>is_record_any\<close> (any object, an array included: every
  property an array has is an \<open>any\<close>). Properties that an interface does
  not declare are unconstrained (structural typing; \<open>ResearchEvent\<close> says so
  explicitly with its index signature \<open>[key: string]: any\<close>).
\<close>

datatype 'n jsval =
    JNull
  | JBool bool
  | JNum 'n
  | JStr string
  | JArr "'n jsval list"
  | JObj "string \<Rightarrow> 'n jsval option"

type_synonym 'n jsobj = "string \<Rightarrow> 'n jsval option"

definition is_string :: "'n jsval \<Rightarrow> bool" where
  "is_string v = (case v of JStr s \<Rightarrow> True | _ \<Rightarrow> False)"

definition is_number :: "'n jsval \<Rightarrow> bool" where
  "is_number v = (case v of JNum n \<Rightarrow> True | _ \<Rightarrow> False)"

definition is_boolean :: "'n jsval \<Rightarrow> bool" where
  "is_boolean v = (case v of JBool b \<Rightarrow> True | _ \<Rightarrow> False)"

definition is_any :: "'n jsval \<Rightarrow> bool" where
  "is_any v = True"

definition is_literal :: "string list \<Rightarrow> 'n jsval \<Rightarrow> bool" where
  "is_literal lits v = (case v of JStr s \<Rightarrow> s \<in> set lits | _ \<Rightarrow> False)"

definition is_array :: "('n jsval \<Rightarrow> bool) \<Rightarrow> 'n jsval \<Rightarrow> bool" where
  "is_array P v = (case v of JArr xs \<Rightarrow> list_all P xs | _ \<Rightarrow> False)"

definition is_object :: "('n jsobj \<Rightarrow> bool) \<Rightarrow> 'n jsval \<Rightarrow> bool" where
  "is_object P v = (case v of JObj m \<Rightarrow> P m | _ \<Rightarrow> False)"

definition is_record_any :: "'n jsval \<Rightarrow> bool" where
  "is_record_any v = (case v of JObj m \<Rightarrow> True | JArr xs \<Rightarrow> True | _ \<Rightarrow> False)"

definition required :: "'n jsobj \<Rightarrow> string \<Rightarrow> ('n jsval \<Rightarrow> bool) \<Rightarrow> bool" where
  "required m k P = (case m k of Some v \<Rightarrow> P v | None \<Rightarrow> False)"

definition optional :: "'n jsobj \<Rightarrow> string \<Rightarrow> ('n jsval \<Rightarrow> bool) \<Rightarrow> bool" where
  "optional m k P = (case m k of Some v \<Rightarrow> P v | None \<Rightarrow> True)"

definition ToolTrace :: "'n jsobj \<Rightarrow> bool" where
  "ToolTrace m \<longleftrightarrow>
     optional m ''tool_id'' is_string \<and>
     optional m ''citation_id'' is_string \<and>
     required m ''tool_type'' is_string \<and>
     required m ''query'' is_string \<and>
     required m ''raw_answer'' is_string \<and>
     required m ''summary'' is_string \<and>
     optional m ''timestamp'' is_string \<and>
     optional m ''raw_answer_truncated'' is_boolean \<and>
     optional m ''raw_answer_original_size'' is_number"

definition TopicBlock_status :: "string list" where
  "TopicBlock_status = [''pending'', ''researching'', ''completed'', ''failed'']"

definition TopicBlock :: "'n jsobj \<Rightarrow> bool" where
  "TopicBlock m \<longleftrightarrow>
     required m ''block_id'' is_string \<and>
     required m ''sub_topic'' is_string \<and>
     required m ''overview'' is_string \<and>
     required m ''status'' (is_literal TopicBlock_status) \<and>
     required m ''tool_traces'' (is_array (is_object ToolTrace)) \<and>
     required m ''iteration_count'' is_number \<and>
     required m ''created_at'' is_string \<and>
     required m ''updated_at'' is_string \<and>
     optional m ''metadata'' is_record_any"

definition ThoughtEntry_type :: "string list" where
  "ThoughtEntry_type = [''sufficiency'', ''plan'', ''tool_call'', ''note'', ''error'']"

definition ThoughtEntry :: "'n jsobj \<Rightarrow> bool" where
  "ThoughtEntry m \<longleftrightarrow>
     required m ''type'' (is_literal ThoughtEntry_type) \<and>
     required m ''content'' is_string \<and>
     optional m ''metadata'' is_record_any \<and>
     required m ''timestamp'' is_number"

definition TaskState_status :: "string list" where
  "TaskState_status = [''pending'', ''running'', ''completed'', ''failed'']"

definition TaskState :: "'n jsobj \<Rightarrow> bool" where
  "TaskState m \<longleftrightarrow>
     required m ''id'' is_string \<and>
     required m ''topic'' is_string \<and>
     required m ''status'' (is_literal TaskState_status) \<and>
     required m ''iteration'' is_number \<and>
     required m ''maxIterations'' is_number \<and>
     required m ''currentAction'' is_string \<and>
     required m ''toolsUsed'' (is_array is_string) \<and>
     required m ''thoughts'' (is_array (is_object ThoughtEntry)) \<and>
     required m ''lastUpdate'' is_number \<and>
     optional m ''currentTool'' is_string \<and>
     optional m ''currentQuery'' is_string"

definition ResearchEventType :: "string list" where
  "ResearchEventType =
     [''planning_started'', ''rephrase_completed'', ''decompose_started'',
      ''decompose_completed'', ''queue_seeded'', ''planning_completed'',
      ''researching_started'', ''parallel_status_update'', ''block_started'',
      ''block_completed'', ''block_failed'', ''researching_completed'',
      ''iteration_started'', ''checking_sufficiency'', ''knowledge_sufficient'',
      ''generating_query'', ''tool_calling'', ''tool_completed'', ''processing_notes'',
      ''iteration_completed'', ''new_topic_added'',
      ''reporting_started'', ''deduplicate_completed'', ''outline_completed'',
      ''writing_section'', ''writing_completed'', ''reporting_completed'',
      ''log'', ''error'', ''status'']"

definition ResearchEvent :: "'n jsobj \<Rightarrow> bool" where
  "ResearchEvent m \<longleftrightarrow>
     required m ''type'' (is_literal ResearchEventType) \<and>
     optional m ''stage'' is_string \<and>
     optional m ''status'' is_string \<and>
     optional m ''timestamp'' is_string \<and>
     optional m ''research_id'' is_string"

text \<open>
  The event names the specification enumerates, section by section (4.1 planning,
  4.2 scheduler, 4.3 agent, 4.4 reporting, 6 system). These lists follow the
  specification, not the source; they are compared with \<open>ResearchEventType\<close>.
\<close>

definition spec_planning_events :: "string list" where
  "spec_planning_events =
     [''planning_started'', ''rephrase_completed'', ''decompose_started'',
      ''decompose_completed'', ''queue_seeded'', ''planning_completed'']"

definition spec_scheduler_events :: "string list" where
  "spec_scheduler_events =
     [''researching_started'', ''block_started'', ''block_completed'', ''block_failed'',
      ''parallel_status_update'', ''researching_completed'']"

definition spec_agent_events :: "string list" where
  "spec_agent_events =
     [''checking_sufficiency'', ''knowledge_sufficient'', ''generating_query'',
      ''tool_calling'', ''tool_completed'', ''processing_notes'', ''new_topic_added'',
      ''iteration_completed'']"

definition spec_reporting_events :: "string list" where
  "spec_reporting_events =
     [''reporting_started'', ''deduplicate_completed'', ''outline_completed'',
      ''writing_section'', ''writing_completed'', ''reporting_completed'']"

definition spec_system_types :: "string list" where
  "spec_system_types = [''log'', ''error'', ''status'']"

definition spec_event_names :: "string list" where
  "spec_event_names =
     spec_planning_events @ spec_scheduler_events @ spec_agent_events @
     spec_reporting_events @ spec_system_types"

text \<open>Concrete objects used to evaluate the contracts.\<close>

definition minimal_ResearchEvent :: "'n jsobj" where
  "minimal_ResearchEvent = [''type'' \<mapsto> JStr ''log'']"

definition full_ResearchEvent :: "'n jsobj" where
  "full_ResearchEvent =
     [''type'' \<mapsto> JStr ''block_started'', ''stage'' \<mapsto> JStr ''researching'',
      ''status'' \<mapsto> JStr ''running'', ''timestamp'' \<mapsto> JStr ''2025-01-01T00:00:00'',
      ''research_id'' \<mapsto> JStr ''r1'', ''block_id'' \<mapsto> JStr ''block_1'']"

definition sample_ToolTrace :: "'n jsobj" where
  "sample_ToolTrace =
     [''tool_type'' \<mapsto> JStr ''web_search'', ''query'' \<mapsto> JStr ''q'',
      ''raw_answer'' \<mapsto> JStr ''a'', ''summary'' \<mapsto> JStr ''s'',
      ''raw_answer_truncated'' \<mapsto> JBool True]"

definition sample_TopicBlock :: "string \<Rightarrow> 'n \<Rightarrow> 'n jsobj" where
  "sample_TopicBlock s n =
     [''block_id'' \<mapsto> JStr ''block_1'', ''sub_topic'' \<mapsto> JStr ''t'',
      ''overview'' \<mapsto> JStr ''o'', ''status'' \<mapsto> JStr s,
      ''tool_traces'' \<mapsto> JArr [JObj sample_ToolTrace], ''iteration_count'' \<mapsto> JNum n,
      ''created_at'' \<mapsto> JStr ''c'', ''updated_at'' \<mapsto> JStr ''u'']"

definition sample_TaskState :: "string \<Rightarrow> 'n \<Rightarrow> 'n jsobj" where
  "sample_TaskState s n =
     [''id'' \<mapsto> JStr ''block_1'', ''topic'' \<mapsto> JStr ''t'', ''status'' \<mapsto> JStr s,
      ''iteration'' \<mapsto> JNum n, ''maxIterations'' \<mapsto> JNum n,
      ''currentAction'' \<mapsto> JStr ''a'', ''toolsUsed'' \<mapsto> JArr [JStr ''web_search''],
      ''thoughts'' \<mapsto> JArr [], ''lastUpdate'' \<mapsto> JNum n]"

section \<open>Research pipeline: scheduler, agent loop, citation counter, event stream\<close>

text \<open>
  Modelled from the spec: the orchestration itself (Block Scheduler, Research Agent,
  citation allocation, Event Stream) is not among the source files, which hold only its
  data contracts (types/research.ts). Everything in this section follows sections 3, 4.2,
  4.3, 4.5, 5 and 7 of the specification. Block identifiers are the positions of the
  blocks in the run's block list (blocks are never deleted), citation identifiers are
  natural numbers, and the external collaborators (Language Model Interface, Tool
  Invocation Interface) are a parameter that fixes what each call returns.
\<close>

text \<open>
  Modelled from the spec: the status of a TopicBlock (section 3) and the states of the
  per-block loop (section 4.3), which are missing from the sources as run-time values.
\<close>

datatype block_status = Pending | Researching | Completed | Failed

datatype agent_state =
  CheckingSufficiency | GeneratingQuery | ToolCalling | ProcessingNotes | IterationCompleted

text \<open>
  Modelled from the spec: the events section 4.3 names for one iteration of the Research
  Agent.
\<close>

datatype agent_event =
    checking_sufficiency | knowledge_sufficient | generating_query | tool_calling
  | tool_completed | processing_notes | new_topic_added | iteration_completed

text \<open>
  Modelled from the spec: every event that carries a block identifier. Next to the
  agent's events these are the scheduler's \<open>block_started\<close>, \<open>block_completed\<close> and
  \<open>block_failed\<close>, emitted "per block" (section 4.2), and \<open>iteration_started\<close>,
  which types/research.ts declares among the agent events and the specification gives no
  place of emission for: the stream admits it, nothing below publishes it.
\<close>

datatype block_event =
  Agent agent_event | iteration_started | block_started | block_completed | block_failed

text \<open>Modelled from the spec: the type of a ThoughtEntry (section 3).\<close>

datatype thought_type = Sufficiency | Plan | Tool_call | Note | Error

text \<open>
  Modelled from the spec: a call to an external collaborator either returns or fails
  (a ToolInvocationError or ModelInvocationError, a time-out included; sections 5 and 7).
  "One retry permitted, second failure marks the owning block failed": a call site is a
  pair of attempts, and \<open>with_retry\<close> is the outcome of the call site.
\<close>

datatype 'a call = Returns 'a | Fails

definition with_retry :: "'a call \<times> 'a call \<Rightarrow> 'a call" where
  "with_retry c = (case fst c of Returns x \<Rightarrow> Returns x | Fails \<Rightarrow> snd c)"

text \<open>
  Modelled from the spec: what the collaborators answer during one iteration of one
  block, per call site of section 4.3: the sufficiency check, the query formulation, the
  tool invocation (raw answer and summary) and the integration of the result into the
  notes, which may surface a new sub-topic. The collaborators of a run map a block
  identifier and an iteration number to these answers.
\<close>

record responses =
  sufficiency_check :: "bool call \<times> bool call"
  query_generation :: "string call \<times> string call"
  tool_invocation :: "(string \<times> string) call \<times> (string \<times> string) call"
  notes_integration :: "string option call \<times> string option call"

type_synonym collaborators = "nat \<Rightarrow> nat \<Rightarrow> responses"

text \<open>
  Modelled from the spec: ToolTrace and TopicBlock as section 3 describes them, with the
  block's place in the loop of section 4.3 and the query it is working on.
\<close>

record tool_trace =
  citation_id :: nat
  trace_query :: string
  raw_answer :: string
  summary :: string

record topic_block =
  sub_topic :: string
  status :: block_status
  iteration_count :: nat
  tool_traces :: "tool_trace list"
  position :: agent_state
  current_query :: string
  thoughts :: "(thought_type \<times> string) list"

text \<open>
  Modelled from the spec: the run configuration of section 6 (maximum iterations per
  block, execution mode, concurrency bound) and the size of the worker pool of section 5,
  "a bounded worker pool of size maxConcurrency (1 in series mode)".
\<close>

datatype execution_mode = Series | Parallel

record config =
  max_iterations :: nat
  mode :: execution_mode
  max_concurrency :: nat

definition worker_slots :: "config \<Rightarrow> nat" where
  "worker_slots cfg = (case mode cfg of Series \<Rightarrow> 1 | Parallel \<Rightarrow> max_concurrency cfg)"

text \<open>
  Modelled from the spec: the shared state of a run (sections 3 and 5): the blocks, the
  FIFO queue of pending block identifiers, the global citation-id counter, the event
  stream in publication order, each event with the identifier of the block it is about,
  and whether the run's single cancellation signal has arrived.
\<close>

record research =
  blocks :: "topic_block list"
  queue :: "nat list"
  citation_counter :: nat
  event_stream :: "(nat \<times> block_event) list"
  cancelled :: bool

text \<open>
  Modelled from the spec: the Topic Planner seeds the scheduler with the initial blocks,
  all pending (section 4.1, \<open>queue_seeded\<close>).
\<close>

definition new_block :: "string \<Rightarrow> topic_block" where
  "new_block topic =
     \<lparr>sub_topic = topic, status = Pending, iteration_count = 0, tool_traces = [],
      position = CheckingSufficiency, current_query = [], thoughts = []\<rparr>"

definition seed :: "string list \<Rightarrow> research" where
  "seed topics =
     \<lparr>blocks = map new_block topics, queue = [0..<length topics],
      citation_counter = 0, event_stream = [], cancelled = False\<rparr>"

text \<open>
  Modelled from the spec: \<open>publish\<close> of section 4.5 (append to the stream), the update
  of one block, the append-only ThoughtEntry trail, and the enqueueing of a discovered
  sub-topic, "appended to the same queue" (section 4.2).
\<close>

definition publish :: "nat \<Rightarrow> block_event list \<Rightarrow> research \<Rightarrow> research" where
  "publish b evs s = s\<lparr>event_stream := event_stream s @ map (Pair b) evs\<rparr>"

definition put_block :: "nat \<Rightarrow> topic_block \<Rightarrow> research \<Rightarrow> research" where
  "put_block b blk s = s\<lparr>blocks := (blocks s)[b := blk]\<rparr>"

definition think :: "thought_type \<Rightarrow> string \<Rightarrow> topic_block \<Rightarrow> topic_block" where
  "think ty txt blk = blk\<lparr>thoughts := thoughts blk @ [(ty, txt)]\<rparr>"

definition enqueue :: "string \<Rightarrow> research \<Rightarrow> research" where
  "enqueue topic s =
     s\<lparr>blocks := blocks s @ [new_block topic], queue := queue s @ [length (blocks s)]\<rparr>"

text \<open>
  Modelled from the spec: the two ways a block ends without sufficiency (sections 4.3
  and 7). A hard tool or model error marks it failed and is "recorded as the block's
  terminal ThoughtEntry". At the head of the loop the budget is checked: the loop goes
  back to \<open>checking_sufficiency\<close> "until iteration_count reaches the configured
  maximum", and then "the block is marked completed with a partial-knowledge note".
\<close>

definition partial_knowledge_note :: "thought_type \<times> string" where
  "partial_knowledge_note = (Note, ''partial knowledge: iteration budget exhausted'')"

definition fail_block :: "string \<Rightarrow> topic_block \<Rightarrow> topic_block" where
  "fail_block why blk = think Error why (blk\<lparr>status := Failed\<rparr>)"

definition loop_head :: "config \<Rightarrow> topic_block \<Rightarrow> topic_block" where
  "loop_head cfg blk =
     (if iteration_count blk < max_iterations cfg
      then blk\<lparr>position := CheckingSufficiency\<rparr>
      else think (fst partial_knowledge_note) (snd partial_knowledge_note)
             (blk\<lparr>status := Completed\<rparr>))"

text \<open>
  Modelled from the spec: one step of the Research Agent on its own block (section 4.3).
  The step runs the state the block is in: it makes that state's call with its retry,
  and returns the updated block, the events to publish, whether it used the citation
  identifier it was offered (a ToolTrace is appended "with a freshly-assigned global
  citation id") and the sub-topic it discovered, if any (design note of section 9: the
  agent returns new blocks instead of touching the queue).
\<close>

record step_result =
  updated :: topic_block
  published :: "agent_event list"
  minted :: bool
  discovered :: "string option"

definition result :: "topic_block \<Rightarrow> agent_event list \<Rightarrow> step_result" where
  "result blk evs = \<lparr>updated = blk, published = evs, minted = False, discovered = None\<rparr>"

definition research_agent :: "config \<Rightarrow> responses \<Rightarrow> nat \<Rightarrow> topic_block \<Rightarrow> step_result" where
  "research_agent cfg r cid blk =
     (case position blk of
        CheckingSufficiency \<Rightarrow>
          (case with_retry (sufficiency_check r) of
             Fails \<Rightarrow>
               result (fail_block ''sufficiency check failed twice'' blk) [checking_sufficiency]
           | Returns True \<Rightarrow>
               result (think Sufficiency ''sufficient'' (blk\<lparr>status := Completed\<rparr>))
                 [checking_sufficiency, knowledge_sufficient]
           | Returns False \<Rightarrow>
               result (think Sufficiency ''insufficient'' (blk\<lparr>position := GeneratingQuery\<rparr>))
                 [checking_sufficiency])
      | GeneratingQuery \<Rightarrow>
          (case with_retry (query_generation r) of
             Fails \<Rightarrow>
               result (fail_block ''query generation failed twice'' blk) [generating_query]
           | Returns q \<Rightarrow>
               result (think Plan q (blk\<lparr>position := ToolCalling, current_query := q\<rparr>))
                 [generating_query])
      | ToolCalling \<Rightarrow>
          (case with_retry (tool_invocation r) of
             Fails \<Rightarrow>
               result (fail_block ''tool call failed twice'' blk) [tool_calling]
           | Returns (raw, summ) \<Rightarrow>
               (result
                  (think Tool_call (current_query blk)
                     (blk\<lparr>position := ProcessingNotes,
                          tool_traces := tool_traces blk @
                            [\<lparr>citation_id = cid, trace_query = current_query blk,
                              raw_answer = raw, summary = summ\<rparr>]\<rparr>))
                  [tool_calling, tool_completed])
               \<lparr>minted := True\<rparr>)
      | ProcessingNotes \<Rightarrow>
          (case with_retry (notes_integration r) of
             Fails \<Rightarrow>
               result (fail_block ''notes integration failed twice'' blk) [processing_notes]
           | Returns None \<Rightarrow>
               result (think Note ''integrated'' (blk\<lparr>position := IterationCompleted\<rparr>))
                 [processing_notes]
           | Returns (Some topic) \<Rightarrow>
               (result (think Note ''integrated'' (blk\<lparr>position := IterationCompleted\<rparr>))
                  [processing_notes, new_topic_added])
               \<lparr>discovered := Some topic\<rparr>)
      | IterationCompleted \<Rightarrow>
          result (loop_head cfg (blk\<lparr>iteration_count := iteration_count blk + 1\<rparr>))
            [iteration_completed])"

text \<open>
  Modelled from the spec: the global citation-id counter, "allocated atomically"
  (section 5): the agent is offered the next number, and the counter moves exactly when
  the number was used. One agent step is one atomic action on the shared state: the
  counter, the agent's own block, the queue and the event stream. The scheduler, which
  "aggregates per-unit terminal status", reports a block that the step has ended: it
  publishes \<open>block_completed\<close> or \<open>block_failed\<close> after the agent's own events.
\<close>

definition scheduler_report :: "topic_block \<Rightarrow> block_event list" where
  "scheduler_report blk =
     (case status blk of
        Completed \<Rightarrow> [block_completed]
      | Failed \<Rightarrow> [block_failed]
      | Pending \<Rightarrow> []
      | Researching \<Rightarrow> [])"

definition allocate :: "bool \<Rightarrow> research \<Rightarrow> research" where
  "allocate used s = (if used then s\<lparr>citation_counter := citation_counter s + 1\<rparr> else s)"

definition enqueue_discovered :: "string option \<Rightarrow> research \<Rightarrow> research" where
  "enqueue_discovered d s = (case d of None \<Rightarrow> s | Some topic \<Rightarrow> enqueue topic s)"

definition agent_turn :: "config \<Rightarrow> collaborators \<Rightarrow> nat \<Rightarrow> research \<Rightarrow> step_result" where
  "agent_turn cfg ext b s =
     (let blk = blocks s ! b
      in research_agent cfg (ext b (iteration_count blk)) (citation_counter s + 1) blk)"

definition agent_step :: "config \<Rightarrow> collaborators \<Rightarrow> nat \<Rightarrow> research \<Rightarrow> research" where
  "agent_step cfg ext b s =
     (if b < length (blocks s) \<and> status (blocks s ! b) = Researching then
        let out = agent_turn cfg ext b s
        in publish b (map Agent (published out) @ scheduler_report (updated out))
             (enqueue_discovered (discovered out)
                (put_block b (updated out) (allocate (minted out) s)))
      else s)"

text \<open>
  Modelled from the spec: the Block Scheduler (sections 4.2 and 5). \<open>dispatch\<close> gives
  the block at the head of the queue to a free worker slot, if there is one: it
  publishes \<open>block_started\<close>, the block becomes \<open>researching\<close> and enters the loop at
  its head (where a budget of zero iterations ends it at once, which the scheduler
  reports).
\<close>

definition researching_count :: "research \<Rightarrow> nat" where
  "researching_count s = length (filter (\<lambda>blk. status blk = Researching) (blocks s))"

definition dispatch :: "config \<Rightarrow> research \<Rightarrow> research" where
  "dispatch cfg s =
     (case queue s of
        [] \<Rightarrow> s
      | b # rest \<Rightarrow>
          if researching_count s < worker_slots cfg
          then let blk = loop_head cfg ((blocks s ! b)\<lparr>status := Researching\<rparr>)
               in publish b (block_started # scheduler_report blk)
                    (put_block b blk (s\<lparr>queue := rest\<rparr>))
          else s)"

text \<open>
  Modelled from the spec: cancellation (sections 5, 7 and 8). "On cancellation [...] all
  researching blocks transition to failed with a cancellation reason"; the
  CancellationError "marks all non-terminal blocks failed", a pending block included
  (scenario of section 8). "No block may be silently dropped": the queue is emptied
  because its blocks are now terminal, and each failure is "visible via
  \<open>block_failed\<close> events".
\<close>

definition cancellation_note :: "thought_type \<times> string" where
  "cancellation_note = (Error, ''cancelled'')"

definition non_terminal :: "topic_block \<Rightarrow> bool" where
  "non_terminal blk \<longleftrightarrow> status blk = Pending \<or> status blk = Researching"

definition cancel_block :: "topic_block \<Rightarrow> topic_block" where
  "cancel_block blk =
     (if non_terminal blk then fail_block (snd cancellation_note) blk else blk)"

definition cancel :: "research \<Rightarrow> research" where
  "cancel s =
     s\<lparr>blocks := map cancel_block (blocks s),
       queue := [],
       event_stream := event_stream s @
         map (\<lambda>b. (b, block_failed))
           (filter (\<lambda>b. non_terminal (blocks s ! b)) [0..<length (blocks s)]),
       cancelled := True\<rparr>"

text \<open>
  Modelled from the spec: a run is a schedule, a list of actions: a dispatch, one step
  of the agent of a block, or the cancellation signal. In series mode there is one
  worker slot, so that the steps of one block are not interleaved with another's; in
  parallel mode any interleaving of the steps of up to \<open>max_concurrency\<close> blocks is a
  schedule.
\<close>

datatype action = Dispatch | Step nat | Cancel

fun perform :: "config \<Rightarrow> collaborators \<Rightarrow> action \<Rightarrow> research \<Rightarrow> research" where
  "perform cfg ext Dispatch s = dispatch cfg s"
| "perform cfg ext (Step b) s = agent_step cfg ext b s"
| "perform cfg ext Cancel s = cancel s"

fun run :: "config \<Rightarrow> collaborators \<Rightarrow> action list \<Rightarrow> research \<Rightarrow> research" where
  "run cfg ext [] s = s"
| "run cfg ext (a # as) s = run cfg ext as (perform cfg ext a s)"

text \<open>
  Observations of a run: the events published for one block identifier, in publication
  order, and the agent's events among them; the citation identifiers of all ToolTrace
  entries of all blocks; the traces of one block; and the citation identifiers in the
  order of their assignment, read off the traces each action of the schedule appended.
\<close>

definition block_events :: "nat \<Rightarrow> research \<Rightarrow> block_event list" where
  "block_events b s = map snd (filter (\<lambda>p. fst p = b) (event_stream s))"

fun agent_part :: "block_event list \<Rightarrow> agent_event list" where
  "agent_part [] = []"
| "agent_part (Agent e # evs) = e # agent_part evs"
| "agent_part (other # evs) = agent_part evs"

definition agent_events :: "nat \<Rightarrow> research \<Rightarrow> agent_event list" where
  "agent_events b s = agent_part (block_events b s)"

definition block_citations :: "topic_block \<Rightarrow> nat list" where
  "block_citations blk = map citation_id (tool_traces blk)"

definition all_citations :: "research \<Rightarrow> nat list" where
  "all_citations s = concat (map block_citations (blocks s))"

definition traces_of :: "nat \<Rightarrow> research \<Rightarrow> tool_trace list" where
  "traces_of b s = (if b < length (blocks s) then tool_traces (blocks s ! b) else [])"

definition assigned_by :: "config \<Rightarrow> collaborators \<Rightarrow> action \<Rightarrow> research \<Rightarrow> nat list" where
  "assigned_by cfg ext a s =
     (case a of
        Dispatch \<Rightarrow> []
      | Step b \<Rightarrow>
          map citation_id
            (drop (length (traces_of b s)) (traces_of b (perform cfg ext a s)))
      | Cancel \<Rightarrow> [])"

fun assignment_order :: "config \<Rightarrow> collaborators \<Rightarrow> action list \<Rightarrow> research \<Rightarrow> nat list" where
  "assignment_order cfg ext [] s = []"
| "assignment_order cfg ext (a # as) s =
     assigned_by cfg ext a s @ assignment_order cfg ext as (perform cfg ext a s)"

definition terminal :: "nat \<Rightarrow> research \<Rightarrow> bool" where
  "terminal b s \<longleftrightarrow>
     b < length (blocks s) \<and>
     (status (blocks s ! b) = Completed \<or> status (blocks s ! b) = Failed)"

text \<open>
  Modelled from the spec: the state machine of section 4.3,
  \<open>checking_sufficiency \<rightarrow> generating_query \<rightarrow> tool_calling \<rightarrow> processing_notes \<rightarrow>
  iteration_completed\<close>, "looping back to \<open>checking_sufficiency\<close>". Five of the
  events carry the name of a state and announce that the block enters it; the other
  three are published inside a state (\<open>knowledge_sufficient\<close> in the sufficiency
  check, \<open>tool_completed\<close> in the tool call, \<open>new_topic_added\<close> in the processing of
  notes). An event sequence is a valid path when it starts with
  \<open>checking_sufficiency\<close>, every event that enters a state enters the successor of the
  state of the event before it (no transition is skipped), an event inside a state
  directly follows the event that entered this state, and nothing follows
  \<open>knowledge_sufficient\<close>, with which the block is complete.
\<close>

fun next_state :: "agent_state \<Rightarrow> agent_state" where
  "next_state CheckingSufficiency = GeneratingQuery"
| "next_state GeneratingQuery = ToolCalling"
| "next_state ToolCalling = ProcessingNotes"
| "next_state ProcessingNotes = IterationCompleted"
| "next_state IterationCompleted = CheckingSufficiency"

fun state_of_event :: "agent_event \<Rightarrow> agent_state" where
  "state_of_event checking_sufficiency = CheckingSufficiency"
| "state_of_event knowledge_sufficient = CheckingSufficiency"
| "state_of_event generating_query = GeneratingQuery"
| "state_of_event tool_calling = ToolCalling"
| "state_of_event tool_completed = ToolCalling"
| "state_of_event processing_notes = ProcessingNotes"
| "state_of_event new_topic_added = ProcessingNotes"
| "state_of_event iteration_completed = IterationCompleted"

fun enters_state :: "agent_event \<Rightarrow> bool" where
  "enters_state knowledge_sufficient = False"
| "enters_state tool_completed = False"
| "enters_state new_topic_added = False"
| "enters_state e = True"

definition follows :: "agent_event \<Rightarrow> agent_event \<Rightarrow> bool" where
  "follows p e =
     (p \<noteq> knowledge_sufficient \<and>
      (if enters_state e
       then state_of_event e = next_state (state_of_event p)
       else enters_state p \<and> state_of_event e = state_of_event p))"

fun valid_from :: "agent_event option \<Rightarrow> agent_event list \<Rightarrow> bool" where
  "valid_from prev [] = True"
| "valid_from prev (e # es) =
     ((case prev of None \<Rightarrow> e = checking_sufficiency | Some p \<Rightarrow> follows p e) \<and>
      valid_from (Some e) es)"

definition valid_path :: "agent_event list \<Rightarrow> bool" where
  "valid_path evs = valid_from None evs"

text \<open>
  The specification's sentence about all the events published for a block identifier:
  that sequence is a valid path through the state machine when each of its events is an
  event of the machine and the sequence of these is a valid path.
\<close>

definition published_path_valid :: "block_event list \<Rightarrow> bool" where
  "published_path_valid evs \<longleftrightarrow> evs = map Agent (agent_part evs) \<and> valid_path (agent_part evs)"

text \<open>
  A hard error at the call site of a state: both attempts failed (section 7, "second
  failure marks the owning block failed").
\<close>

definition failed_twice :: "responses \<Rightarrow> agent_state \<Rightarrow> bool" where
  "failed_twice r p =
     (case p of
        CheckingSufficiency \<Rightarrow> sufficiency_check r = (Fails, Fails)
      | GeneratingQuery \<Rightarrow> query_generation r = (Fails, Fails)
      | ToolCalling \<Rightarrow> tool_invocation r = (Fails, Fails)
      | ProcessingNotes \<Rightarrow> notes_integration r = (Fails, Fails)
      | IterationCompleted \<Rightarrow> False)"

text \<open>
  Invariants of a run, used in the proofs. \<open>queue_ok\<close>: the queue holds distinct,
  pending blocks. \<open>events_ok\<close>: the agent events of every block form a valid path
  whose last event is the one after which the block's current state may be entered, and
  the scheduler's events frame them as \<open>framed\<close> says. \<open>budgets_ok\<close>: a researching
  block is within its budget, a failed block stands at a call site whose two attempts
  failed or was cancelled, and a completed block either found its notes sufficient or
  has used up its budget and carries the partial-knowledge note.
  \<open>remaining\<close> bounds the steps a researching block can still take.
  \<open>citations_bounded\<close>: no citation identifier in use exceeds the counter.
\<close>

definition citations_bounded :: "research \<Rightarrow> bool" where
  "citations_bounded s \<longleftrightarrow> (\<forall>c \<in> set (all_citations s). c \<le> citation_counter s)"

definition last_event :: "agent_event list \<Rightarrow> agent_event option" where
  "last_event evs = (if evs = [] then None else Some (last evs))"

fun expected_after :: "agent_state \<Rightarrow> agent_event option \<Rightarrow> bool" where
  "expected_after CheckingSufficiency prev = (prev = None \<or> prev = Some iteration_completed)"
| "expected_after GeneratingQuery prev = (prev = Some checking_sufficiency)"
| "expected_after ToolCalling prev = (prev = Some generating_query)"
| "expected_after ProcessingNotes prev = (prev = Some tool_completed)"
| "expected_after IterationCompleted prev =
     (prev = Some processing_notes \<or> prev = Some new_topic_added)"

definition framed :: "block_status \<Rightarrow> block_event list \<Rightarrow> bool" where
  "framed st evs =
     (case st of
        Pending \<Rightarrow> evs = []
      | Researching \<Rightarrow> evs = block_started # map Agent (agent_part evs)
      | Completed \<Rightarrow> evs = block_started # map Agent (agent_part evs) @ [block_completed]
      | Failed \<Rightarrow>
          evs = block_started # map Agent (agent_part evs) @ [block_failed] \<or>
          evs = [block_failed])"

definition block_agrees :: "topic_block \<Rightarrow> block_event list \<Rightarrow> bool" where
  "block_agrees blk evs \<longleftrightarrow>
     framed (status blk) evs \<and>
     (status blk = Researching \<longrightarrow>
        expected_after (position blk) (last_event (agent_part evs)))"

definition queue_ok :: "research \<Rightarrow> bool" where
  "queue_ok s \<longleftrightarrow>
     distinct (queue s) \<and>
     (\<forall>b \<in> set (queue s). b < length (blocks s) \<and> status (blocks s ! b) = Pending)"

definition events_ok :: "research \<Rightarrow> bool" where
  "events_ok s \<longleftrightarrow>
     (\<forall>b. valid_path (agent_events b s) \<and>
          (if b < length (blocks s)
           then block_agrees (blocks s ! b) (block_events b s)
           else block_events b s = []))"

definition budget_ok ::
  "config \<Rightarrow> collaborators \<Rightarrow> bool \<Rightarrow> nat \<Rightarrow> topic_block \<Rightarrow> bool" where
  "budget_ok cfg ext canc b blk =
     (case status blk of
        Pending \<Rightarrow> iteration_count blk = 0
      | Researching \<Rightarrow> iteration_count blk < max_iterations cfg
      | Failed \<Rightarrow>
          thoughts blk \<noteq> [] \<and> fst (last (thoughts blk)) = Error \<and>
          ((iteration_count blk < max_iterations cfg \<and>
            failed_twice (ext b (iteration_count blk)) (position blk)) \<or>
           (canc \<and> last (thoughts blk) = cancellation_note \<and>
            (iteration_count blk < max_iterations cfg \<or> iteration_count blk = 0)))
      | Completed \<Rightarrow>
          (iteration_count blk < max_iterations cfg \<and>
           with_retry (sufficiency_check (ext b (iteration_count blk))) = Returns True) \<or>
          (iteration_count blk = max_iterations cfg \<and>
           thoughts blk \<noteq> [] \<and> last (thoughts blk) = partial_knowledge_note))"

definition budgets_ok :: "config \<Rightarrow> collaborators \<Rightarrow> research \<Rightarrow> bool" where
  "budgets_ok cfg ext s \<longleftrightarrow>
     (\<forall>b < length (blocks s). budget_ok cfg ext (cancelled s) b (blocks s ! b))"

fun state_index :: "agent_state \<Rightarrow> nat" where
  "state_index CheckingSufficiency = 0"
| "state_index GeneratingQuery = 1"
| "state_index ToolCalling = 2"
| "state_index ProcessingNotes = 3"
| "state_index IterationCompleted = 4"

definition remaining :: "config \<Rightarrow> topic_block \<Rightarrow> nat" where
  "remaining cfg blk =
     5 * (max_iterations cfg - iteration_count blk) - state_index (position blk)"

text \<open>
  A concrete run: three blocks in parallel mode, one iteration each. The tool of block 0
  fails twice; every other tool call fails once and succeeds when retried; the notes
  are never found sufficient. Block 2 reaches its tool call before block 1 does.
\<close>

definition steady :: responses where
  "steady =
     \<lparr>sufficiency_check = (Returns False, Fails),
      query_generation = (Returns ''q'', Fails),
      tool_invocation = (Fails, Returns (''raw'', ''sum'')),
      notes_integration = (Returns None, Fails)\<rparr>"

definition demo_ext :: collaborators where
  "demo_ext b i =
     (if b = 0 then steady\<lparr>tool_invocation := (Fails, Fails)\<rparr> else steady)"

definition demo_cfg :: config where
  "demo_cfg = \<lparr>max_iterations = 1, mode = Parallel, max_concurrency = 3\<rparr>"

definition demo_schedule :: "action list" where
  "demo_schedule =
     [Dispatch, Dispatch, Dispatch,
      Step 0, Step 1, Step 2, Step 0, Step 1, Step 2, Step 0, Step 2, Step 1,
      Step 1, Step 1]"

definition demo_run :: research where
  "demo_run = run demo_cfg demo_ext demo_schedule (seed [''light'', ''dark'', ''cycle''])"

text \<open>
  A cancelled run (the scenario of section 8): series mode, two blocks, every attempt
  of every call returns; the signal arrives when block 0 is researching and block 1 is
  pending.
\<close>

definition calm :: responses where
  "calm =
     \<lparr>sufficiency_check = (Returns False, Returns False),
      query_generation = (Returns ''q'', Returns ''q''),
      tool_invocation = (Returns (''raw'', ''sum''), Returns (''raw'', ''sum'')),
      notes_integration = (Returns None, Returns None)\<rparr>"

definition calm_ext :: collaborators where
  "calm_ext b i = calm"

definition series_cfg :: config where
  "series_cfg = \<lparr>max_iterations = 3, mode = Series, max_concurrency = 1\<rparr>"

definition cancelled_run :: research where
  "cancelled_run = run series_cfg calm_ext [Dispatch, Step 0, Cancel] (seed [''light'', ''dark''])"

section \<open>Properties of the API helpers\<close>

lemmas resolve_defs = resolveApiBaseUrl_def readRuntimeConfig_def runtime_API_BASE_URL_def
  truthy_string_def default_API_BASE_URL_def

lemma suffix_single: "suffix [c] s \<longleftrightarrow> s \<noteq> [] \<and> last s = c"
  by (cases s rule: rev_cases) (auto simp: suffix_def)

lemma endsWith_slash: "endsWith s ''/'' \<longleftrightarrow> s \<noteq> [] \<and> last s = CHR ''/''"
  by (simp add: endsWith_def suffix_single)

lemma startsWith_slash: "startsWith s ''/'' \<longleftrightarrow> s \<noteq> [] \<and> hd s = CHR ''/''"
  by (cases s) (auto simp: startsWith_def)

lemma apiUrl_eq:
  "apiUrl e p = strip_trailing_slash (resolveApiBaseUrl e) @ ensure_leading_slash p"
  by (simp add: apiUrl_def Let_def strip_trailing_slash_def ensure_leading_slash_def)

lemma wsUrl_eq:
  "wsUrl e p =
     strip_trailing_slash
       (replace_anchored ''https:'' ''wss:''
          (replace_anchored ''http:'' ''ws:'' (resolveApiBaseUrl e)))
     @ ensure_leading_slash p"
  by (simp add: wsUrl_def Let_def strip_trailing_slash_def ensure_leading_slash_def)

lemma strip_trailing_slash_append:
  "r \<noteq> [] \<Longrightarrow> strip_trailing_slash (s @ r) = s @ strip_trailing_slash r"
  by (simp add: strip_trailing_slash_def endsWith_slash slice_0_neg1_def butlast_append)

lemma strip_trailing_slash_scheme:
  "last s \<noteq> CHR ''/'' \<Longrightarrow> strip_trailing_slash (s @ r) = s @ strip_trailing_slash r"
  by (cases "r = []")
    (simp_all add: strip_trailing_slash_append, simp add: strip_trailing_slash_def endsWith_slash)

lemma strip_trailing_slash_no_slash:
  assumes "\<not> endsWith b ''//''"
  shows "\<not> endsWith (strip_trailing_slash b) ''/''"
proof (cases "endsWith b ''/''")
  case False
  then show ?thesis by (simp add: strip_trailing_slash_def)
next
  case True
  then obtain ys where b: "b = ys @ ''/''"
    by (auto simp: endsWith_def suffix_def)
  with assms have "\<not> suffix ''/'' ys"
    by (auto simp: endsWith_def suffix_def)
  with True b show ?thesis
    by (simp add: strip_trailing_slash_def slice_0_neg1_def endsWith_def)
qed

text \<open>
  A page rendered by \<open>RootLayout\<close> always carries a non-empty runtime base, so in the
  browser the client-side environment variable never decides the result.
\<close>

lemma resolve_in_RootLayout_page:
  "resolveApiBaseUrl
     \<lparr>window = Some \<lparr>RUNTIME_CONFIG = Some (RootLayout_runtimeConfig srv)\<rparr>,
      process_env_API_BASE_URL = cli\<rparr>
   = (case truthy_string srv of Some u \<Rightarrow> u | None \<Rightarrow> default_API_BASE_URL)"
  by (simp add: resolve_defs RootLayout_runtimeConfig_def split: option.splits)

text \<open>
  Claim C8. \<open>resolveApiBaseUrl\<close> resolves the base with a fixed precedence: a
  non-empty \<open>API_BASE_URL\<close> of the browser runtime configuration is returned; otherwise
  (no \<open>window\<close>, a \<open>window\<close> without \<open>__RUNTIME_CONFIG__\<close>, a configuration without
  \<open>API_BASE_URL\<close> or with an empty one) a non-empty environment variable
  \<open>API_BASE_URL\<close> is returned; otherwise the result is exactly
  \<open>http://localhost:8004/realtimex\<close>. Outside a browser (no \<open>window\<close>) the result
  is decided by the environment variable alone.
\<close>

theorem resolveApiBaseUrl_precedence:
  "(window e = Some w \<and> RUNTIME_CONFIG w = Some c \<and> API_BASE_URL c = Some u \<and> u \<noteq> []
      \<longrightarrow> resolveApiBaseUrl e = u) \<and>
   (\<not> (\<exists>w' c' u'. window e = Some w' \<and> RUNTIME_CONFIG w' = Some c' \<and>
                   API_BASE_URL c' = Some u' \<and> u' \<noteq> []) \<and>
    process_env_API_BASE_URL e = Some v \<and> v \<noteq> []
      \<longrightarrow> resolveApiBaseUrl e = v) \<and>
   (\<not> (\<exists>w' c' u'. window e = Some w' \<and> RUNTIME_CONFIG w' = Some c' \<and>
                   API_BASE_URL c' = Some u' \<and> u' \<noteq> []) \<and>
    (process_env_API_BASE_URL e = None \<or> process_env_API_BASE_URL e = Some [])
      \<longrightarrow> resolveApiBaseUrl e = ''http://localhost:8004/realtimex'') \<and>
   (window e = None \<and> process_env_API_BASE_URL e = Some v \<and> v \<noteq> []
      \<longrightarrow> resolveApiBaseUrl e = v) \<and>
   (window e = None \<and>
    (process_env_API_BASE_URL e = None \<or> process_env_API_BASE_URL e = Some [])
      \<longrightarrow> resolveApiBaseUrl e = ''http://localhost:8004/realtimex'')"
proof -
  have supplied: "resolveApiBaseUrl e = u"
    if "window e = Some w" "RUNTIME_CONFIG w = Some c" "API_BASE_URL c = Some u" "u \<noteq> []"
    using that by (simp add: resolve_defs)
  have skipped: "truthy_string (runtime_API_BASE_URL (readRuntimeConfig e)) = None"
    if "\<not> (\<exists>w' c' u'. window e = Some w' \<and> RUNTIME_CONFIG w' = Some c' \<and>
                   API_BASE_URL c' = Some u' \<and> u' \<noteq> [])"
    using that
    by (auto simp: readRuntimeConfig_def runtime_API_BASE_URL_def truthy_string_def
        split: option.splits)
  have from_env: "resolveApiBaseUrl e = v"
    if "truthy_string (runtime_API_BASE_URL (readRuntimeConfig e)) = None"
      "process_env_API_BASE_URL e = Some v" "v \<noteq> []"
    using that by (simp add: resolveApiBaseUrl_def truthy_string_def)
  have fallback: "resolveApiBaseUrl e = ''http://localhost:8004/realtimex''"
    if "truthy_string (runtime_API_BASE_URL (readRuntimeConfig e)) = None"
      "process_env_API_BASE_URL e = None \<or> process_env_API_BASE_URL e = Some []"
    using that by (auto simp: resolveApiBaseUrl_def truthy_string_def default_API_BASE_URL_def)
  have outside: "\<not> (\<exists>w' c' u'. window e = Some w' \<and> RUNTIME_CONFIG w' = Some c' \<and>
                   API_BASE_URL c' = Some u' \<and> u' \<noteq> [])"
    if "window e = None"
    using that by simp
  show ?thesis
    using supplied skipped from_env fallback outside by blast
qed

theorem resolveApiBaseUrl_precedence_witness:
  "resolveApiBaseUrl (env_browser ''https://api.example/x'' ''http://env.example'')
     = ''https://api.example/x'' \<and>
   resolveApiBaseUrl (env_browser [] ''http://env.example'') = ''http://env.example'' \<and>
   resolveApiBaseUrl env_window_only = ''http://localhost:8004/realtimex'' \<and>
   resolveApiBaseUrl (env_of_process ''http://env.example'') = ''http://env.example'' \<and>
   resolveApiBaseUrl (env_of_process []) = ''http://localhost:8004/realtimex'' \<and>
   resolveApiBaseUrl env_none = ''http://localhost:8004/realtimex''"
proof -
  let ?w = "\<lparr>RUNTIME_CONFIG = Some \<lparr>API_BASE_URL = Some ''https://api.example/x''\<rparr>\<rparr>"
  let ?c = "\<lparr>API_BASE_URL = Some ''https://api.example/x''\<rparr>"
  have a: "resolveApiBaseUrl (env_browser ''https://api.example/x'' ''http://env.example'')
             = ''https://api.example/x''"
    using resolveApiBaseUrl_precedence
      [of "env_browser ''https://api.example/x'' ''http://env.example''" ?w ?c
          "''https://api.example/x''"]
    by (simp add: env_browser_def)
  have b: "resolveApiBaseUrl (env_browser [] ''http://env.example'') = ''http://env.example''"
    using resolveApiBaseUrl_precedence
      [of "env_browser [] ''http://env.example''" _ _ _ "''http://env.example''"]
    by (simp add: env_browser_def)
  have c: "resolveApiBaseUrl env_window_only = ''http://localhost:8004/realtimex''"
    using resolveApiBaseUrl_precedence [of env_window_only]
    by (simp add: env_window_only_def)
  have d: "resolveApiBaseUrl (env_of_process ''http://env.example'') = ''http://env.example''"
    using resolveApiBaseUrl_precedence
      [of "env_of_process ''http://env.example''" _ _ _ "''http://env.example''"]
    by (simp add: env_of_process_def)
  have e: "resolveApiBaseUrl (env_of_process []) = ''http://localhost:8004/realtimex''"
    using resolveApiBaseUrl_precedence [of "env_of_process []"]
    by (simp add: env_of_process_def)
  have f: "resolveApiBaseUrl env_none = ''http://localhost:8004/realtimex''"
    using resolveApiBaseUrl_precedence [of env_none]
    by (simp add: env_none_def)
  show ?thesis
    by (intro conjI a b c d e f)
qed

text \<open>
  Claim C9. For every path \<open>p\<close>, \<open>wsUrl p\<close> is \<open>apiUrl p\<close> with only the scheme
  rewritten: when the resolved base begins with \<open>https:\<close>, \<open>apiUrl p\<close> begins with
  \<open>https:\<close> and \<open>wsUrl p\<close> is \<open>wss:\<close> followed by the very same remainder; when
  the base begins with \<open>http:\<close>, likewise with \<open>http:\<close> and \<open>ws:\<close>; and with any
  other base nothing is rewritten, the two URLs are equal.
\<close>

theorem wsUrl_rewrites_scheme_only:
  "(prefix ''https:'' (resolveApiBaseUrl e) \<longrightarrow>
      take 6 (apiUrl e p) = ''https:'' \<and> wsUrl e p = ''wss:'' @ drop 6 (apiUrl e p)) \<and>
   (prefix ''http:'' (resolveApiBaseUrl e) \<longrightarrow>
      take 5 (apiUrl e p) = ''http:'' \<and> wsUrl e p = ''ws:'' @ drop 5 (apiUrl e p)) \<and>
   (\<not> prefix ''https:'' (resolveApiBaseUrl e) \<and> \<not> prefix ''http:'' (resolveApiBaseUrl e) \<longrightarrow>
      wsUrl e p = apiUrl e p)"
proof -
  define b where "b = resolveApiBaseUrl e"
  define np where "np = ensure_leading_slash p"
  have api: "apiUrl e p = strip_trailing_slash b @ np"
    by (simp add: apiUrl_eq b_def np_def)
  have ws: "wsUrl e p =
      strip_trailing_slash
        (replace_anchored ''https:'' ''wss:'' (replace_anchored ''http:'' ''ws:'' b)) @ np"
    by (simp add: wsUrl_eq b_def np_def)
  have secure: "take 6 (apiUrl e p) = ''https:'' \<and> wsUrl e p = ''wss:'' @ drop 6 (apiUrl e p)"
    if "prefix ''https:'' b"
  proof -
    from that obtain r where r: "b = ''https:'' @ r"
      by (auto simp: prefix_def)
    have "\<not> prefix ''http:'' b"
      by (simp add: r)
    then have "replace_anchored ''https:'' ''wss:'' (replace_anchored ''http:'' ''ws:'' b)
                 = ''wss:'' @ r"
      by (simp add: replace_anchored_def r)
    moreover have "strip_trailing_slash (''https:'' @ r) = ''https:'' @ strip_trailing_slash r"
      by (rule strip_trailing_slash_scheme) simp
    moreover have "strip_trailing_slash (''wss:'' @ r) = ''wss:'' @ strip_trailing_slash r"
      by (rule strip_trailing_slash_scheme) simp
    ultimately show ?thesis
      unfolding api ws r by simp
  qed
  have plain: "take 5 (apiUrl e p) = ''http:'' \<and> wsUrl e p = ''ws:'' @ drop 5 (apiUrl e p)"
    if "prefix ''http:'' b"
  proof -
    from that obtain r where r: "b = ''http:'' @ r"
      by (auto simp: prefix_def)
    have "replace_anchored ''https:'' ''wss:'' (replace_anchored ''http:'' ''ws:'' b)
            = ''ws:'' @ r"
      by (simp add: replace_anchored_def r)
    moreover have "strip_trailing_slash (''http:'' @ r) = ''http:'' @ strip_trailing_slash r"
      by (rule strip_trailing_slash_scheme) simp
    moreover have "strip_trailing_slash (''ws:'' @ r) = ''ws:'' @ strip_trailing_slash r"
      by (rule strip_trailing_slash_scheme) simp
    ultimately show ?thesis
      unfolding api ws r by simp
  qed
  have other: "wsUrl e p = apiUrl e p" if "\<not> prefix ''https:'' b" "\<not> prefix ''http:'' b"
    using that unfolding api ws by (simp add: replace_anchored_def)
  show ?thesis
    using secure plain other unfolding b_def by blast
qed

theorem wsUrl_rewrites_scheme_only_witness:
  "apiUrl (env_of_process ''https://h.example/'') ''api/v1/solve''
     = ''https://h.example/api/v1/solve'' \<and>
   wsUrl (env_of_process ''https://h.example/'') ''api/v1/solve''
     = ''wss://h.example/api/v1/solve'' \<and>
   apiUrl env_none ''/api/v1/solve'' = ''http://localhost:8004/realtimex/api/v1/solve'' \<and>
   wsUrl env_none ''/api/v1/solve'' = ''ws://localhost:8004/realtimex/api/v1/solve'' \<and>
   wsUrl (env_of_process ''/proxy'') ''x'' = apiUrl (env_of_process ''/proxy'') ''x''"
proof -
  have r1: "resolveApiBaseUrl (env_of_process ''https://h.example/'') = ''https://h.example/''"
    by (simp add: resolve_defs env_of_process_def)
  have a1: "apiUrl (env_of_process ''https://h.example/'') ''api/v1/solve''
              = ''https://h.example/api/v1/solve''"
    by (simp add: apiUrl_eq r1 strip_trailing_slash_def endsWith_slash slice_0_neg1_def
        ensure_leading_slash_def startsWith_slash)
  have w1: "wsUrl (env_of_process ''https://h.example/'') ''api/v1/solve''
              = ''wss://h.example/api/v1/solve''"
    using wsUrl_rewrites_scheme_only
      [of "env_of_process ''https://h.example/''" "''api/v1/solve''"]
    by (simp add: r1 a1)
  have r2: "resolveApiBaseUrl env_none = ''http://localhost:8004/realtimex''"
    by (simp add: resolve_defs env_none_def)
  have a2: "apiUrl env_none ''/api/v1/solve'' = ''http://localhost:8004/realtimex/api/v1/solve''"
    by (simp add: apiUrl_eq r2 strip_trailing_slash_def endsWith_slash slice_0_neg1_def
        ensure_leading_slash_def startsWith_slash)
  have w2: "wsUrl env_none ''/api/v1/solve'' = ''ws://localhost:8004/realtimex/api/v1/solve''"
    using wsUrl_rewrites_scheme_only [of env_none "''/api/v1/solve''"]
    by (simp add: r2 a2)
  have r3: "resolveApiBaseUrl (env_of_process ''/proxy'') = ''/proxy''"
    by (simp add: resolve_defs env_of_process_def)
  have w3: "wsUrl (env_of_process ''/proxy'') ''x'' = apiUrl (env_of_process ''/proxy'') ''x''"
    using wsUrl_rewrites_scheme_only [of "env_of_process ''/proxy''" "''x''"]
    by (simp add: r3)
  from a1 w1 a2 w2 w3 show ?thesis by blast
qed

text \<open>
  Claim C10, as the specification states it: for a path \<open>p\<close> not beginning with
  \<open>/\<close> the result of \<open>apiUrl\<close> is the base with a single trailing \<open>/\<close> removed,
  followed by the path with exactly one leading \<open>/\<close>, so that no double slash stands
  between base and path. This fails for a base that ends with two slashes: only one of
  them is removed, and the slash in front of the path follows the other.
\<close>

theorem apiUrl_double_slash_counterexample:
  "\<not> startsWith ''x'' ''/'' \<and>
   resolveApiBaseUrl (env_of_process ''http://h.example//'') = ''http://h.example//'' \<and>
   apiUrl (env_of_process ''http://h.example//'') ''x'' = ''http://h.example//x'' \<and>
   apiUrl (env_of_process ''http://h.example//'') (''/'' @ ''x'') = ''http://h.example//x'' \<and>
   strip_trailing_slash ''http://h.example//'' = ''http://h.example/'' \<and>
   endsWith (strip_trailing_slash ''http://h.example//'') ''/''"
  by (simp add: apiUrl_eq env_of_process_def resolve_defs strip_trailing_slash_def
      endsWith_slash slice_0_neg1_def ensure_leading_slash_def startsWith_slash)

text \<open>
  Claim C10, amended. For every path \<open>p\<close> not beginning with \<open>/\<close>,
  \<open>apiUrl p = apiUrl ("/" + p)\<close>, and for every resolved base the result is the base
  with its trailing \<open>/\<close> removed (one slash, when the base ends with one; otherwise the
  base as it is), followed directly by \<open>"/" + p\<close>, the path with exactly one leading
  \<open>/\<close>. When the base does not end with \<open>//\<close>, what is left of the base does not
  end with \<open>/\<close>, so no double slash stands between base and path.
\<close>

theorem apiUrl_join:
  "\<not> startsWith p ''/'' \<longrightarrow>
     apiUrl e p = apiUrl e (''/'' @ p) \<and>
     apiUrl e p = strip_trailing_slash (resolveApiBaseUrl e) @ ''/'' @ p \<and>
     (endsWith (resolveApiBaseUrl e) ''/'' \<longrightarrow>
        strip_trailing_slash (resolveApiBaseUrl e) @ ''/'' = resolveApiBaseUrl e) \<and>
     (\<not> endsWith (resolveApiBaseUrl e) ''/'' \<longrightarrow>
        strip_trailing_slash (resolveApiBaseUrl e) = resolveApiBaseUrl e) \<and>
     (\<not> endsWith (resolveApiBaseUrl e) ''//'' \<longrightarrow>
        \<not> endsWith (strip_trailing_slash (resolveApiBaseUrl e)) ''/'')"
proof -
  have removed: "strip_trailing_slash b @ ''/'' = b" if "endsWith b ''/''" for b
  proof -
    from that have "b \<noteq> []" "last b = CHR ''/''"
      by (simp_all add: endsWith_slash)
    from append_butlast_last_id [OF \<open>b \<noteq> []\<close>] \<open>last b = CHR ''/''\<close>
    have "butlast b @ ''/'' = b"
      by simp
    with that show ?thesis
      by (simp add: strip_trailing_slash_def slice_0_neg1_def)
  qed
  have kept: "strip_trailing_slash b = b" if "\<not> endsWith b ''/''" for b
    using that by (simp add: strip_trailing_slash_def)
  have same: "apiUrl e p = apiUrl e (''/'' @ p)"
    and joined: "apiUrl e p = strip_trailing_slash (resolveApiBaseUrl e) @ ''/'' @ p"
    if "\<not> startsWith p ''/''"
    using that by (simp_all add: apiUrl_eq ensure_leading_slash_def startsWith_def)
  from same joined removed kept strip_trailing_slash_no_slash show ?thesis
    by blast
qed

theorem apiUrl_join_witness:
  "apiUrl (env_of_process ''http://h.example/'') ''api/v1''
     = apiUrl (env_of_process ''http://h.example/'') (''/'' @ ''api/v1'') \<and>
   apiUrl (env_of_process ''http://h.example/'') ''api/v1''
     = strip_trailing_slash ''http://h.example/'' @ ''/'' @ ''api/v1'' \<and>
   strip_trailing_slash ''http://h.example/'' @ ''/'' = ''http://h.example/'' \<and>
   \<not> endsWith (strip_trailing_slash ''http://h.example/'') ''/'' \<and>
   strip_trailing_slash (resolveApiBaseUrl env_none) = resolveApiBaseUrl env_none"
proof -
  have r: "resolveApiBaseUrl (env_of_process ''http://h.example/'') = ''http://h.example/''"
    by (simp add: resolve_defs env_of_process_def)
  have p: "\<not> startsWith ''api/v1'' ''/''"
    by (simp add: startsWith_def)
  have b: "endsWith ''http://h.example/'' ''/''" "\<not> endsWith ''http://h.example/'' ''//''"
    by (simp_all add: endsWith_def suffix_to_prefix)
  have n: "\<not> endsWith (resolveApiBaseUrl env_none) ''/''"
    by (simp add: resolve_defs env_none_def endsWith_slash)
  note j = mp [OF apiUrl_join [of "''api/v1''" "env_of_process ''http://h.example/''",
        unfolded r] p]
  note k = mp [OF apiUrl_join [of "''api/v1''" env_none] p]
  have 1: "apiUrl (env_of_process ''http://h.example/'') ''api/v1''
      = apiUrl (env_of_process ''http://h.example/'') (''/'' @ ''api/v1'')"
    by (rule j [THEN conjunct1])
  have 2: "apiUrl (env_of_process ''http://h.example/'') ''api/v1''
      = strip_trailing_slash ''http://h.example/'' @ ''/'' @ ''api/v1''"
    by (rule j [THEN conjunct2, THEN conjunct1])
  have 3: "strip_trailing_slash ''http://h.example/'' @ ''/'' = ''http://h.example/''"
    by (rule mp [OF j [THEN conjunct2, THEN conjunct2, THEN conjunct1] b(1)])
  have 4: "\<not> endsWith (strip_trailing_slash ''http://h.example/'') ''/''"
    by (rule mp [OF j [THEN conjunct2, THEN conjunct2, THEN conjunct2, THEN conjunct2] b(2)])
  have 5: "strip_trailing_slash (resolveApiBaseUrl env_none) = resolveApiBaseUrl env_none"
    by (rule mp [OF k [THEN conjunct2, THEN conjunct2, THEN conjunct2, THEN conjunct1] n])
  show ?thesis
    by (intro conjI 1 2 3 4 5)
qed

section \<open>Properties of the research data contracts\<close>

lemmas ty_defs = required_def optional_def is_string_def is_number_def is_boolean_def
  is_literal_def is_array_def is_object_def is_record_any_def

lemmas spec_lists = spec_event_names_def spec_planning_events_def spec_scheduler_events_def
  spec_agent_events_def spec_reporting_events_def spec_system_types_def

lemma minimal_ResearchEvent_ok: "ResearchEvent minimal_ResearchEvent"
  by (simp add: ResearchEvent_def minimal_ResearchEvent_def ty_defs ResearchEventType_def)

lemma full_ResearchEvent_ok: "ResearchEvent full_ResearchEvent"
  by (simp add: ResearchEvent_def full_ResearchEvent_def ty_defs ResearchEventType_def)

lemma sample_ToolTrace_ok: "ToolTrace sample_ToolTrace"
  by (simp add: ToolTrace_def sample_ToolTrace_def ty_defs)

lemma sample_TopicBlock_ok:
  "s \<in> set TopicBlock_status \<Longrightarrow> TopicBlock (sample_TopicBlock s n)"
  by (simp add: TopicBlock_def sample_TopicBlock_def ty_defs sample_ToolTrace_ok)

lemma sample_TaskState_ok:
  "s \<in> set TaskState_status \<Longrightarrow> TaskState (sample_TaskState s n)"
  by (simp add: TaskState_def sample_TaskState_def ty_defs)

lemma optional_string:
  "optional m k is_string \<Longrightarrow> m k = None \<or> (\<exists>x. m k = Some (JStr x))"
  by (auto simp: optional_def is_string_def split: option.splits jsval.splits)

lemma required_literal:
  "required m k (is_literal lits) \<Longrightarrow> \<exists>t \<in> set lits. m k = Some (JStr t)"
  by (auto simp: required_def is_literal_def split: option.splits jsval.splits)

text \<open>
  Claim C1, as the specification states it: the members of \<open>ResearchEventType\<close> are
  exactly the event names the specification enumerates. This fails: the union has the
  member \<open>iteration_started\<close>, which the specification does not enumerate.
\<close>

theorem ResearchEventType_counterexample:
  "''iteration_started'' \<in> set ResearchEventType \<and>
   ''iteration_started'' \<notin> set spec_event_names"
  by (simp add: ResearchEventType_def spec_lists)

text \<open>
  Claim C1, amended. Every event name the specification enumerates is a member of
  \<open>ResearchEventType\<close>, and every member of the union is one of the enumerated names
  or \<open>iteration_started\<close>.
\<close>

theorem ResearchEventType_members:
  "set spec_event_names \<subseteq> set ResearchEventType \<and>
   set ResearchEventType = set spec_event_names \<union> {''iteration_started''}"
  by code_simp

text \<open>
  Claim C2, as the specification states it: \<open>timestamp\<close> and \<open>research_id\<close> are
  required on every \<open>ResearchEvent\<close>. This fails: the interface declares both with
  \<open>?\<close>, so an event with neither conforms.
\<close>

theorem ResearchEvent_required_counterexample:
  "ResearchEvent (minimal_ResearchEvent :: int jsobj) \<and>
   (minimal_ResearchEvent :: int jsobj) ''timestamp'' = None \<and>
   (minimal_ResearchEvent :: int jsobj) ''research_id'' = None"
  by (simp add: minimal_ResearchEvent_ok) (simp add: minimal_ResearchEvent_def)

text \<open>
  Claim C2, amended. Every \<open>ResearchEvent\<close> carries \<open>type\<close>, a member of
  \<open>ResearchEventType\<close>; \<open>stage\<close>, \<open>status\<close>, \<open>timestamp\<close> and \<open>research_id\<close> are
  all optional strings: in a conforming event each of them is absent or a string, and
  the event still conforms with any one of them removed, and with any one of them set to
  a string.
\<close>

theorem ResearchEvent_fields:
  "(ResearchEvent ev \<longrightarrow> (\<exists>t \<in> set ResearchEventType. ev ''type'' = Some (JStr t))) \<and>
   (ResearchEvent ev \<and> k \<in> {''stage'', ''status'', ''timestamp'', ''research_id''} \<longrightarrow>
      (ev k = None \<or> (\<exists>x. ev k = Some (JStr x))) \<and>
      ResearchEvent (ev(k := None)) \<and> ResearchEvent (ev(k \<mapsto> JStr s)))"
proof -
  have 1: "\<exists>t \<in> set ResearchEventType. ev ''type'' = Some (JStr t)" if "ResearchEvent ev"
    using that by (simp add: ResearchEvent_def required_literal)
  have 2: "ResearchEvent (ev(k := None)) \<and> ResearchEvent (ev(k \<mapsto> JStr s))"
    if "ResearchEvent ev" and "k \<in> {''stage'', ''status'', ''timestamp'', ''research_id''}"
    using that unfolding ResearchEvent_def
    by (elim insertE emptyE; simp add: optional_def required_def is_string_def)
  have 3: "ev k = None \<or> (\<exists>x. ev k = Some (JStr x))"
    if "ResearchEvent ev" and "k \<in> {''stage'', ''status'', ''timestamp'', ''research_id''}"
  proof -
    from that have "optional ev k is_string"
      unfolding ResearchEvent_def by (elim insertE emptyE; simp)
    then show ?thesis
      by (rule optional_string)
  qed
  show ?thesis
  proof (intro conjI impI)
    assume "ResearchEvent ev"
    then show "\<exists>t \<in> set ResearchEventType. ev ''type'' = Some (JStr t)"
      by (rule 1)
  next
    assume a: "ResearchEvent ev \<and> k \<in> {''stage'', ''status'', ''timestamp'', ''research_id''}"
    show "ev k = None \<or> (\<exists>x. ev k = Some (JStr x))"
      by (rule 3 [OF a [THEN conjunct1] a [THEN conjunct2]])
    show "ResearchEvent (ev(k := None))"
      by (rule 2 [OF a [THEN conjunct1] a [THEN conjunct2], THEN conjunct1])
    show "ResearchEvent (ev(k \<mapsto> JStr s))"
      by (rule 2 [OF a [THEN conjunct1] a [THEN conjunct2], THEN conjunct2])
  qed
qed

theorem ResearchEvent_fields_witness:
  "ResearchEvent (full_ResearchEvent :: int jsobj) \<and>
   (\<exists>t \<in> set ResearchEventType. (full_ResearchEvent :: int jsobj) ''type'' = Some (JStr t)) \<and>
   (\<exists>x. (full_ResearchEvent :: int jsobj) ''timestamp'' = Some (JStr x)) \<and>
   ResearchEvent ((full_ResearchEvent :: int jsobj)(''timestamp'' := None)) \<and>
   ResearchEvent ((full_ResearchEvent :: int jsobj)(''timestamp'' \<mapsto> JStr ''12:00''))"
proof -
  have ok: "ResearchEvent (full_ResearchEvent :: int jsobj)"
    by (rule full_ResearchEvent_ok)
  have k: "''timestamp'' \<in> {''stage'', ''status'', ''timestamp'', ''research_id''}"
    by simp
  have present: "(full_ResearchEvent :: int jsobj) ''timestamp'' \<noteq> None"
    by (simp add: full_ResearchEvent_def)
  note f = ResearchEvent_fields
    [of "full_ResearchEvent :: int jsobj" "''timestamp''" "''12:00''"]
  have 1: "\<exists>t \<in> set ResearchEventType. (full_ResearchEvent :: int jsobj) ''type'' = Some (JStr t)"
    by (rule mp [OF f [THEN conjunct1] ok])
  note g = mp [OF f [THEN conjunct2] conjI [OF ok k]]
  from g [THEN conjunct1] present
  have 2: "\<exists>x. (full_ResearchEvent :: int jsobj) ''timestamp'' = Some (JStr x)"
    by simp
  have 3: "ResearchEvent ((full_ResearchEvent :: int jsobj)(''timestamp'' := None))"
    by (rule g [THEN conjunct2, THEN conjunct1])
  have 4: "ResearchEvent ((full_ResearchEvent :: int jsobj)(''timestamp'' \<mapsto> JStr ''12:00''))"
    by (rule g [THEN conjunct2, THEN conjunct2])
  show ?thesis
    by (intro conjI ok 1 2 3 4)
qed

text \<open>
  Claim C6. The \<open>status\<close> of a \<open>TopicBlock\<close> takes exactly the four values
  \<open>pending\<close>, \<open>researching\<close>, \<open>completed\<close>, \<open>failed\<close>, and the \<open>status\<close> of a
  \<open>TaskState\<close> exactly the four values \<open>pending\<close>, \<open>running\<close>, \<open>completed\<close>,
  \<open>failed\<close>: every conforming object has one of them as its status, and each of them
  is the status of some conforming object.
\<close>

theorem status_values:
  "(TopicBlock b \<longrightarrow>
      (\<exists>s \<in> {''pending'', ''researching'', ''completed'', ''failed''}.
         b ''status'' = Some (JStr s))) \<and>
   (\<forall>s \<in> {''pending'', ''researching'', ''completed'', ''failed''}.
      \<exists>b' :: 'n jsobj. TopicBlock b' \<and> b' ''status'' = Some (JStr s)) \<and>
   (TaskState t \<longrightarrow>
      (\<exists>s \<in> {''pending'', ''running'', ''completed'', ''failed''}.
         t ''status'' = Some (JStr s))) \<and>
   (\<forall>s \<in> {''pending'', ''running'', ''completed'', ''failed''}.
      \<exists>t' :: 'n jsobj. TaskState t' \<and> t' ''status'' = Some (JStr s))"
proof -
  have 1: "\<exists>s \<in> {''pending'', ''researching'', ''completed'', ''failed''}.
             b ''status'' = Some (JStr s)"
    if "TopicBlock b"
  proof -
    from that have "required b ''status'' (is_literal TopicBlock_status)"
      by (simp add: TopicBlock_def)
    from required_literal [OF this] show ?thesis
      by (simp add: TopicBlock_status_def)
  qed
  have 2: "\<exists>b' :: 'n jsobj. TopicBlock b' \<and> b' ''status'' = Some (JStr s)"
    if "s \<in> {''pending'', ''researching'', ''completed'', ''failed''}" for s
  proof -
    from that have "s \<in> set TopicBlock_status"
      by (simp add: TopicBlock_status_def)
    then have "TopicBlock (sample_TopicBlock s undefined :: 'n jsobj)"
      by (rule sample_TopicBlock_ok)
    moreover have "(sample_TopicBlock s undefined :: 'n jsobj) ''status'' = Some (JStr s)"
      by (simp add: sample_TopicBlock_def)
    ultimately show ?thesis by blast
  qed
  have 3: "\<exists>s \<in> {''pending'', ''running'', ''completed'', ''failed''}.
             t ''status'' = Some (JStr s)"
    if "TaskState t"
  proof -
    from that have "required t ''status'' (is_literal TaskState_status)"
      by (simp add: TaskState_def)
    from required_literal [OF this] show ?thesis
      by (simp add: TaskState_status_def)
  qed
  have 4: "\<exists>t' :: 'n jsobj. TaskState t' \<and> t' ''status'' = Some (JStr s)"
    if "s \<in> {''pending'', ''running'', ''completed'', ''failed''}" for s
  proof -
    from that have "s \<in> set TaskState_status"
      by (simp add: TaskState_status_def)
    then have "TaskState (sample_TaskState s undefined :: 'n jsobj)"
      by (rule sample_TaskState_ok)
    moreover have "(sample_TaskState s undefined :: 'n jsobj) ''status'' = Some (JStr s)"
      by (simp add: sample_TaskState_def)
    ultimately show ?thesis by blast
  qed
  show ?thesis using 1 2 3 4 by blast
qed

theorem status_values_witness:
  "TopicBlock (sample_TopicBlock ''researching'' (2::int)) \<and>
   (\<exists>s \<in> {''pending'', ''researching'', ''completed'', ''failed''}.
      sample_TopicBlock ''researching'' (2::int) ''status'' = Some (JStr s)) \<and>
   (\<exists>b' :: int jsobj. TopicBlock b' \<and> b' ''status'' = Some (JStr ''failed'')) \<and>
   TaskState (sample_TaskState ''running'' (2::int)) \<and>
   (\<exists>s \<in> {''pending'', ''running'', ''completed'', ''failed''}.
      sample_TaskState ''running'' (2::int) ''status'' = Some (JStr s)) \<and>
   (\<exists>t' :: int jsobj. TaskState t' \<and> t' ''status'' = Some (JStr ''running''))"
proof -
  have b: "TopicBlock (sample_TopicBlock ''researching'' (2::int))"
    by (rule sample_TopicBlock_ok) (simp add: TopicBlock_status_def)
  have t: "TaskState (sample_TaskState ''running'' (2::int))"
    by (rule sample_TaskState_ok) (simp add: TaskState_status_def)
  have m: "''failed'' \<in> {''pending'', ''researching'', ''completed'', ''failed''}"
          "''running'' \<in> {''pending'', ''running'', ''completed'', ''failed''}"
    by simp_all
  note v = status_values [of "sample_TopicBlock ''researching'' (2::int)"
                             "sample_TaskState ''running'' (2::int)"]
  have 1: "\<exists>s \<in> {''pending'', ''researching'', ''completed'', ''failed''}.
      sample_TopicBlock ''researching'' (2::int) ''status'' = Some (JStr s)"
    by (rule mp [OF v [THEN conjunct1] b])
  have 2: "\<exists>b' :: int jsobj. TopicBlock b' \<and> b' ''status'' = Some (JStr ''failed'')"
    by (rule bspec [OF v [THEN conjunct2, THEN conjunct1] m(1)])
  have 3: "\<exists>s \<in> {''pending'', ''running'', ''completed'', ''failed''}.
      sample_TaskState ''running'' (2::int) ''status'' = Some (JStr s)"
    by (rule mp [OF v [THEN conjunct2, THEN conjunct2, THEN conjunct1] t])
  have 4: "\<exists>t' :: int jsobj. TaskState t' \<and> t' ''status'' = Some (JStr ''running'')"
    by (rule bspec [OF v [THEN conjunct2, THEN conjunct2, THEN conjunct2] m(2)])
  show ?thesis
    by (intro conjI b t 1 2 3 4)
qed

text \<open>
  Claim C7, as the specification states it: a \<open>ToolTrace\<close> whose
  \<open>raw_answer_truncated\<close> is true carries \<open>raw_answer_original_size\<close>. This fails:
  the interface declares the two properties independently, both with \<open>?\<close>.
\<close>

theorem ToolTrace_truncated_counterexample:
  "ToolTrace (sample_ToolTrace :: int jsobj) \<and>
   (sample_ToolTrace :: int jsobj) ''raw_answer_truncated'' = Some (JBool True) \<and>
   (sample_ToolTrace :: int jsobj) ''raw_answer_original_size'' = None"
  by (simp add: sample_ToolTrace_ok) (simp add: sample_ToolTrace_def)

text \<open>
  Claim C7, amended. In a \<open>ToolTrace\<close>, \<open>raw_answer_truncated\<close> is absent or a
  boolean and \<open>raw_answer_original_size\<close> is absent or a number, and the contract
  does not tie the marker to the flag: whatever \<open>raw_answer_truncated\<close> is, the entry
  conforms with the marker removed and with the marker set to a number.
\<close>

theorem ToolTrace_truncation_fields:
  "ToolTrace t \<longrightarrow>
     (t ''raw_answer_truncated'' = None \<or> (\<exists>b. t ''raw_answer_truncated'' = Some (JBool b))) \<and>
     (t ''raw_answer_original_size'' = None \<or>
      (\<exists>m. t ''raw_answer_original_size'' = Some (JNum m))) \<and>
     ToolTrace (t(''raw_answer_original_size'' := None)) \<and>
     ToolTrace (t(''raw_answer_original_size'' \<mapsto> JNum n))"
  by (auto simp: ToolTrace_def ty_defs split: option.splits jsval.splits)

theorem ToolTrace_truncation_fields_witness:
  "ToolTrace (sample_ToolTrace :: int jsobj) \<and>
   (sample_ToolTrace :: int jsobj) ''raw_answer_truncated'' = Some (JBool True) \<and>
   ToolTrace ((sample_ToolTrace :: int jsobj)(''raw_answer_original_size'' := None)) \<and>
   ToolTrace ((sample_ToolTrace :: int jsobj)(''raw_answer_original_size'' \<mapsto> JNum 4096))"
proof -
  have a: "ToolTrace (sample_ToolTrace :: int jsobj)"
    by (rule sample_ToolTrace_ok)
  have b: "(sample_ToolTrace :: int jsobj) ''raw_answer_truncated'' = Some (JBool True)"
    by (simp add: sample_ToolTrace_def)
  from a b ToolTrace_truncation_fields [of "sample_ToolTrace :: int jsobj" 4096]
  show ?thesis by blast
qed

section \<open>Properties of the research pipeline\<close>

subsection \<open>The concrete run, evaluated\<close>

text \<open>
  The concrete run ends with block 0 failed at its tool call, block 1 completed on an
  exhausted budget and block 2 still researching; block 2 holds citation 1 and block 1
  citation 2.
\<close>

lemma demo_statuses: "map status (blocks demo_run) = [Failed, Completed, Researching]"
  by code_simp

lemma demo_order:
  "assignment_order demo_cfg demo_ext demo_schedule (seed [''light'', ''dark'', ''cycle'']) = [1, 2]"
  by code_simp

lemma demo_citations: "all_citations demo_run = [2, 1]"
  by code_simp

lemma demo_events:
  "agent_events 1 demo_run =
     [checking_sufficiency, generating_query, tool_calling, tool_completed,
      processing_notes, iteration_completed]"
  by code_simp

lemma demo_published:
  "block_events 1 demo_run =
     [block_started, Agent checking_sufficiency, Agent generating_query, Agent tool_calling,
      Agent tool_completed, Agent processing_notes, Agent iteration_completed,
      block_completed]"
  by code_simp

lemma demo_terminal: "terminal 1 demo_run"
  by code_simp

lemma demo_blocks:
  "length (blocks demo_run) = 3"
  "status (blocks demo_run ! 0) = Failed"
  "position (blocks demo_run ! 0) = ToolCalling"
  "iteration_count (blocks demo_run ! 0) = 0"
  "status (blocks demo_run ! 1) = Completed"
  "iteration_count (blocks demo_run ! 1) = 1"
  "status (blocks demo_run ! 2) = Researching"
  by code_simp+

lemma demo_max: "max_iterations demo_cfg = 1"
  by (simp add: demo_cfg_def)

text \<open>
  The cancelled run ends with both blocks failed, block 0 in the state of query
  generation and block 1 never started, although every call returned at once.
\<close>

lemma cancelled_blocks:
  "length (blocks cancelled_run) = 2"
  "status (blocks cancelled_run ! 0) = Failed"
  "position (blocks cancelled_run ! 0) = GeneratingQuery"
  "status (blocks cancelled_run ! 1) = Failed"
  "position (blocks cancelled_run ! 1) = CheckingSufficiency"
  "cancelled cancelled_run"
  "last (thoughts (blocks cancelled_run ! 0)) = cancellation_note"
  by code_simp+

lemma calm_never_fails:
  "\<not> failed_twice (calm_ext b i) CheckingSufficiency"
  "\<not> failed_twice (calm_ext b i) GeneratingQuery"
  "\<not> failed_twice (calm_ext b i) ToolCalling"
  "\<not> failed_twice (calm_ext b i) ProcessingNotes"
  "\<not> failed_twice (calm_ext b i) IterationCompleted"
  by (simp_all add: failed_twice_def calm_ext_def calm_def)

subsection \<open>Citation identifiers\<close>

text \<open>
  What one agent step does to each component of the shared state, then the effect of an
  action on the citation identifiers in use: an action assigns no identifier or exactly
  the successor of the counter, which is larger than every identifier in use.
\<close>

lemmas agent_defs = research_agent_def result_def fail_block_def think_def loop_head_def
lemmas agent_splits = agent_state.splits call.splits bool.splits option.splits prod.splits

lemma research_agent_traces:
  "map citation_id (tool_traces (updated (research_agent cfg r cid blk))) =
     map citation_id (tool_traces blk) @ (if minted (research_agent cfg r cid blk) then [cid] else [])"
  by (simp add: agent_defs split: agent_splits)

lemma research_agent_traces_prefix:
  "prefix (tool_traces blk) (tool_traces (updated (research_agent cfg r cid blk)))"
  by (simp add: agent_defs split: agent_splits)

lemma blocks_agent_step:
  assumes "b < length (blocks s)" "status (blocks s ! b) = Researching"
  shows "blocks (agent_step cfg ext b s) =
           (blocks s)[b := updated (agent_turn cfg ext b s)] @
           (case discovered (agent_turn cfg ext b s) of None \<Rightarrow> [] | Some t \<Rightarrow> [new_block t])"
  using assms
  by (simp add: agent_step_def Let_def publish_def enqueue_discovered_def enqueue_def
      put_block_def allocate_def split: option.splits)

lemma counter_agent_step:
  assumes "b < length (blocks s)" "status (blocks s ! b) = Researching"
  shows "citation_counter (agent_step cfg ext b s) =
           citation_counter s + (if minted (agent_turn cfg ext b s) then 1 else 0)"
  using assms
  by (simp add: agent_step_def Let_def publish_def enqueue_discovered_def enqueue_def
      put_block_def allocate_def split: option.splits)

lemma events_agent_step:
  assumes "b < length (blocks s)" "status (blocks s ! b) = Researching"
  shows "event_stream (agent_step cfg ext b s) =
           event_stream s @
           map (Pair b) (map Agent (published (agent_turn cfg ext b s)) @
                         scheduler_report (updated (agent_turn cfg ext b s)))"
  using assms
  by (simp add: agent_step_def Let_def publish_def enqueue_discovered_def enqueue_def
      put_block_def allocate_def split: option.splits)

lemma cancelled_agent_step [simp]: "cancelled (agent_step cfg ext b s) = cancelled s"
  by (simp add: agent_step_def Let_def publish_def enqueue_discovered_def enqueue_def
      put_block_def allocate_def split: option.splits)

lemma queue_agent_step:
  assumes "b < length (blocks s)" "status (blocks s ! b) = Researching"
  shows "queue (agent_step cfg ext b s) =
           queue s @ (case discovered (agent_turn cfg ext b s) of None \<Rightarrow> [] | Some t \<Rightarrow> [length (blocks s)])"
  using assms
  by (simp add: agent_step_def Let_def publish_def enqueue_discovered_def enqueue_def
      put_block_def allocate_def split: option.splits)

lemma agent_step_idle:
  "\<not> (b < length (blocks s) \<and> status (blocks s ! b) = Researching) \<Longrightarrow> agent_step cfg ext b s = s"
  by (auto simp: agent_step_def)

lemma concat_map_update:
  assumes "b < length bs"
  shows "concat (map f (bs[b := x])) =
           concat (map f (take b bs)) @ f x @ concat (map f (drop (Suc b) bs))"
  using assms by (simp add: upd_conv_take_nth_drop)

lemma concat_map_nth:
  assumes "b < length bs"
  shows "concat (map f bs) =
           concat (map f (take b bs)) @ f (bs ! b) @ concat (map f (drop (Suc b) bs))"
  using concat_map_update [OF assms, of f "bs ! b"] by simp

lemma traces_of_step:
  "map citation_id (traces_of b (agent_step cfg ext b s)) =
     map citation_id (traces_of b s) @ assigned_by cfg ext (Step b) s"
proof (cases "b < length (blocks s) \<and> status (blocks s ! b) = Researching")
  case False
  then show ?thesis by (simp add: agent_step_idle assigned_by_def)
next
  case True
  then have len: "b < length (blocks (agent_step cfg ext b s))"
    by (simp add: blocks_agent_step)
  from True have nth: "blocks (agent_step cfg ext b s) ! b = updated (agent_turn cfg ext b s)"
    by (simp add: blocks_agent_step nth_append)
  have pre: "prefix (tool_traces (blocks s ! b)) (tool_traces (updated (agent_turn cfg ext b s)))"
    by (simp add: agent_turn_def Let_def research_agent_traces_prefix)
  then obtain zs where zs: "tool_traces (updated (agent_turn cfg ext b s)) = tool_traces (blocks s ! b) @ zs"
    by (auto simp: prefix_def)
  from True len nth zs show ?thesis
    by (simp add: traces_of_def assigned_by_def)
qed

lemma assigned_by_step:
  "assigned_by cfg ext (Step b) s =
     (if b < length (blocks s) \<and> status (blocks s ! b) = Researching \<and> minted (agent_turn cfg ext b s)
      then [citation_counter s + 1] else [])"
proof (cases "b < length (blocks s) \<and> status (blocks s ! b) = Researching")
  case False
  then show ?thesis by (auto simp: agent_step_idle assigned_by_def)
next
  case True
  have "map citation_id (tool_traces (updated (agent_turn cfg ext b s))) =
          map citation_id (tool_traces (blocks s ! b)) @
          (if minted (agent_turn cfg ext b s) then [citation_counter s + 1] else [])"
    by (simp add: agent_turn_def Let_def research_agent_traces)
  moreover from True have "map citation_id (traces_of b (agent_step cfg ext b s)) =
      map citation_id (tool_traces (updated (agent_turn cfg ext b s)))"
    by (simp add: traces_of_def blocks_agent_step nth_append)
  moreover from True have "traces_of b s = tool_traces (blocks s ! b)"
    by (simp add: traces_of_def)
  ultimately show ?thesis
    using traces_of_step [of b cfg ext s] True by simp
qed

lemma loop_head_traces [simp]: "tool_traces (loop_head cfg blk) = tool_traces blk"
  by (simp add: loop_head_def think_def)

lemma blocks_dispatch:
  "blocks (dispatch cfg s) = blocks s \<or>
   (\<exists>b rest. queue s = b # rest \<and>
      blocks (dispatch cfg s) =
        (blocks s)[b := loop_head cfg ((blocks s ! b)\<lparr>status := Researching\<rparr>)])"
  by (simp add: dispatch_def put_block_def publish_def Let_def split: list.splits)

lemma counter_dispatch [simp]: "citation_counter (dispatch cfg s) = citation_counter s"
  by (simp add: dispatch_def put_block_def publish_def Let_def split: list.splits)

lemma cancelled_dispatch [simp]: "cancelled (dispatch cfg s) = cancelled s"
  by (simp add: dispatch_def put_block_def publish_def Let_def split: list.splits)

text \<open>Cancellation changes the status and the thoughts of blocks, nothing else of them.\<close>

lemma cancel_block_traces [simp]: "tool_traces (cancel_block blk) = tool_traces blk"
  by (simp add: cancel_block_def fail_block_def think_def)

lemma blocks_cancel [simp]: "blocks (cancel s) = map cancel_block (blocks s)"
  by (simp add: cancel_def)

lemma counter_cancel [simp]: "citation_counter (cancel s) = citation_counter s"
  by (simp add: cancel_def)

lemma cancel_block_citations [simp]: "block_citations (cancel_block blk) = block_citations blk"
  by (simp add: block_citations_def)

lemma all_citations_cancel [simp]: "all_citations (cancel s) = all_citations s"
  by (simp add: all_citations_def comp_def)

lemma traces_of_cancel [simp]: "traces_of b (cancel s) = traces_of b s"
  by (simp add: traces_of_def)

lemma length_blocks_dispatch [simp]: "length (blocks (dispatch cfg s)) = length (blocks s)"
  using blocks_dispatch [of cfg s] by auto

lemma block_citations_dispatch:
  "map block_citations (blocks (dispatch cfg s)) = map block_citations (blocks s)"
proof -
  have "map block_citations
          ((blocks s)[b := loop_head cfg ((blocks s ! b)\<lparr>status := Researching\<rparr>)])
        = map block_citations (blocks s)" for b
  proof (cases "b < length (blocks s)")
    case True
    then show ?thesis
      by (simp add: map_update block_citations_def list_update_same_conv)
  next
    case False
    then show ?thesis by (simp add: list_update_beyond)
  qed
  with blocks_dispatch [of cfg s] show ?thesis by auto
qed

lemma all_citations_dispatch [simp]: "all_citations (dispatch cfg s) = all_citations s"
  by (simp add: all_citations_def block_citations_dispatch)

lemma traces_of_dispatch [simp]: "traces_of b (dispatch cfg s) = traces_of b s"
proof (cases "b < length (blocks s)")
  case False
  then show ?thesis by (simp add: traces_of_def)
next
  case True
  have "tool_traces ((blocks s)[q := loop_head cfg ((blocks s ! q)\<lparr>status := Researching\<rparr>)] ! b)
          = tool_traces (blocks s ! b)" for q
    using True by (cases "q = b") simp_all
  then have "tool_traces (blocks (dispatch cfg s) ! b) = tool_traces (blocks s ! b)"
    using blocks_dispatch [of cfg s] by auto
  with True show ?thesis by (simp add: traces_of_def)
qed

lemma all_citations_agent_step:
  assumes "b < length (blocks s)" "status (blocks s ! b) = Researching"
  shows "all_citations (agent_step cfg ext b s) =
           concat (map block_citations (take b (blocks s))) @
           (block_citations (blocks s ! b) @ assigned_by cfg ext (Step b) s) @
           concat (map block_citations (drop (Suc b) (blocks s)))"
proof -
  have new: "concat (map block_citations
                 (case discovered (agent_turn cfg ext b s) of None \<Rightarrow> [] | Some t \<Rightarrow> [new_block t])) = []"
    by (cases "discovered (agent_turn cfg ext b s)")
      (simp_all add: block_citations_def new_block_def)
  have upd: "block_citations (updated (agent_turn cfg ext b s)) =
               block_citations (blocks s ! b) @ assigned_by cfg ext (Step b) s"
    using assms
    by (simp add: block_citations_def agent_turn_def Let_def research_agent_traces
        assigned_by_step)
  show ?thesis
    using assms
    by (simp add: all_citations_def blocks_agent_step concat_map_update new upd
        del: append_assoc)
qed

lemma all_citations_split:
  assumes "b < length (blocks s)"
  shows "all_citations s =
           concat (map block_citations (take b (blocks s))) @
           block_citations (blocks s ! b) @
           concat (map block_citations (drop (Suc b) (blocks s)))"
  unfolding all_citations_def by (rule concat_map_nth [OF assms])

lemma set_citations_perform:
  "set (all_citations (perform cfg ext a s)) =
     set (all_citations s) \<union> set (assigned_by cfg ext a s)"
proof (cases a)
  case Dispatch
  then show ?thesis by (simp add: assigned_by_def)
next
  case Cancel
  then show ?thesis by (simp add: assigned_by_def)
next
  case (Step b)
  show ?thesis
  proof (cases "b < length (blocks s) \<and> status (blocks s ! b) = Researching")
    case False
    then show ?thesis
      using Step by (auto simp: agent_step_idle assigned_by_step)
  next
    case True
    then show ?thesis
      using Step all_citations_agent_step [of b s cfg ext] all_citations_split [of b s]
      by auto
  qed
qed

lemma counter_perform:
  "citation_counter (perform cfg ext a s) =
     citation_counter s + length (assigned_by cfg ext a s)"
proof (cases a)
  case Dispatch
  then show ?thesis by (simp add: assigned_by_def)
next
  case Cancel
  then show ?thesis by (simp add: assigned_by_def)
next
  case (Step b)
  then show ?thesis
    by (cases "b < length (blocks s) \<and> status (blocks s ! b) = Researching")
      (auto simp: agent_step_idle assigned_by_step counter_agent_step)
qed

lemma assigned_by_cases:
  "assigned_by cfg ext a s = [] \<or> assigned_by cfg ext a s = [citation_counter s + 1]"
proof (cases a)
  case Dispatch
  then show ?thesis by (simp add: assigned_by_def)
next
  case Cancel
  then show ?thesis by (simp add: assigned_by_def)
next
  case (Step b)
  then show ?thesis by (simp add: assigned_by_step)
qed

lemma assigned_by_fresh:
  "c \<in> set (assigned_by cfg ext a s) \<Longrightarrow> c = citation_counter s + 1"
  using assigned_by_cases [of cfg ext a s] by auto

lemma citations_bounded_perform:
  assumes "citations_bounded s"
  shows "citations_bounded (perform cfg ext a s)"
  using assms assigned_by_cases [of cfg ext a s]
  unfolding citations_bounded_def set_citations_perform counter_perform
  by fastforce

lemma distinct_citations_perform:
  assumes "citations_bounded s" "distinct (all_citations s)"
  shows "distinct (all_citations (perform cfg ext a s))"
proof (cases a)
  case Dispatch
  with assms show ?thesis by simp
next
  case Cancel
  with assms show ?thesis by simp
next
  case (Step b)
  show ?thesis
  proof (cases "b < length (blocks s) \<and> status (blocks s ! b) = Researching")
    case False
    with assms Step show ?thesis by (simp add: agent_step_idle)
  next
    case True
    have fresh: "c \<notin> set (all_citations s)" if "c \<in> set (assigned_by cfg ext (Step b) s)" for c
      using assigned_by_fresh [OF that] assms(1) by (auto simp: citations_bounded_def)
    have single: "distinct (assigned_by cfg ext (Step b) s)"
      using assigned_by_cases [of cfg ext "Step b" s] by auto
    from assms(2) fresh single show ?thesis
      using Step True all_citations_agent_step [of b s cfg ext] all_citations_split [of b s]
      by auto
  qed
qed

lemma traces_prefix_perform:
  "prefix (traces_of b s) (traces_of b (perform cfg ext a s))"
proof (cases a)
  case Dispatch
  then show ?thesis by simp
next
  case Cancel
  then show ?thesis by simp
next
  case (Step b')
  show ?thesis
  proof (cases "b' < length (blocks s) \<and> status (blocks s ! b') = Researching")
    case False
    with Step show ?thesis by (simp add: agent_step_idle)
  next
    case True
    show ?thesis
    proof (cases "b < length (blocks s)")
      case False
      then show ?thesis by (simp add: traces_of_def)
    next
      case inside: True
      show ?thesis
      proof (cases "b = b'")
        case True
        with \<open>b' < length (blocks s) \<and> status (blocks s ! b') = Researching\<close> Step inside
        show ?thesis
          by (simp add: traces_of_def blocks_agent_step nth_append agent_turn_def Let_def
              research_agent_traces_prefix)
      next
        case False
        with \<open>b' < length (blocks s) \<and> status (blocks s ! b') = Researching\<close> Step inside
        show ?thesis
          by (simp add: traces_of_def blocks_agent_step nth_append)
      qed
    qed
  qed
qed

lemma traces_prefix_run:
  "prefix (traces_of b s) (traces_of b (run cfg ext sched s))"
proof (induction sched arbitrary: s)
  case Nil
  then show ?case by simp
next
  case (Cons a sched)
  from traces_prefix_perform [of b s cfg ext a] Cons [of "perform cfg ext a s"]
  show ?case by (auto intro: prefix_order.trans)
qed

lemma run_append: "run cfg ext (xs @ ys) s = run cfg ext ys (run cfg ext xs s)"
  by (induction xs arbitrary: s) simp_all

lemma assignment_order_facts:
  assumes "citations_bounded s" "distinct (all_citations s)"
  shows "sorted_wrt (<) (assignment_order cfg ext sched s) \<and>
         (\<forall>c \<in> set (assignment_order cfg ext sched s). citation_counter s < c) \<and>
         distinct (all_citations (run cfg ext sched s)) \<and>
         citations_bounded (run cfg ext sched s) \<and>
         set (all_citations (run cfg ext sched s)) =
           set (all_citations s) \<union> set (assignment_order cfg ext sched s)"
  using assms
proof (induction sched arbitrary: s)
  case Nil
  then show ?case by simp
next
  case (Cons a sched)
  let ?s' = "perform cfg ext a s"
  have b': "citations_bounded ?s'" and d': "distinct (all_citations ?s')"
    using Cons.prems by (simp_all add: citations_bounded_perform distinct_citations_perform)
  note ih = Cons.IH [OF b' d']
  let ?rest = "assignment_order cfg ext sched ?s'"
  from ih have ih_sorted: "sorted_wrt (<) ?rest"
    by (rule conjunct1)
  from ih have ih_above: "\<forall>c \<in> set ?rest. citation_counter ?s' < c"
    by (rule conjunct2 [THEN conjunct1])
  from ih have ih_distinct: "distinct (all_citations (run cfg ext sched ?s'))"
    by (rule conjunct2 [THEN conjunct2, THEN conjunct1])
  from ih have ih_bounded: "citations_bounded (run cfg ext sched ?s')"
    by (rule conjunct2 [THEN conjunct2, THEN conjunct2, THEN conjunct1])
  from ih have ih_set: "set (all_citations (run cfg ext sched ?s')) =
      set (all_citations ?s') \<union> set ?rest"
    by (rule conjunct2 [THEN conjunct2, THEN conjunct2, THEN conjunct2])
  have counter: "citation_counter ?s' = citation_counter s + length (assigned_by cfg ext a s)"
    by (rule counter_perform)
  have sorted: "sorted_wrt (<) (assigned_by cfg ext a s @ ?rest)"
   and above: "\<forall>c \<in> set (assigned_by cfg ext a s @ ?rest). citation_counter s < c"
    using assigned_by_cases [of cfg ext a s] ih_sorted ih_above counter
    by (auto simp: sorted_wrt_append)
  have sets: "set (all_citations (run cfg ext sched ?s')) =
      set (all_citations s) \<union> set (assigned_by cfg ext a s @ ?rest)"
    unfolding ih_set set_citations_perform by auto
  from sorted above ih_distinct ih_bounded sets show ?case
    by simp
qed

lemma seed_citations: "all_citations (seed topics) = []"
  by (simp add: all_citations_def seed_def block_citations_def new_block_def comp_def)

text \<open>
  Claim C3. For every run, whatever the execution mode, the concurrency bound and the
  interleaving of the agents' steps: the citation identifiers are strictly increasing in
  the order of their assignment; the identifiers of all ToolTrace entries of all blocks
  are pairwise distinct, and they are exactly the assigned ones; and an identifier is
  assigned once: the traces a block has at any point of the run remain, unchanged, the
  first traces of that block at every later point.
\<close>

theorem citation_ids_unique_increasing:
  "sorted_wrt (<) (assignment_order cfg ext sched (seed topics)) \<and>
   distinct (all_citations (run cfg ext sched (seed topics))) \<and>
   set (all_citations (run cfg ext sched (seed topics))) =
     set (assignment_order cfg ext sched (seed topics)) \<and>
   prefix (traces_of b (run cfg ext sched (seed topics)))
          (traces_of b (run cfg ext (sched @ later) (seed topics)))"
proof -
  have "citations_bounded (seed topics)" "distinct (all_citations (seed topics))"
    by (simp_all add: citations_bounded_def seed_citations)
  from assignment_order_facts [OF this, of cfg ext sched] traces_prefix_run
  show ?thesis by (simp add: seed_citations run_append)
qed

theorem citation_ids_unique_increasing_witness:
  "assignment_order demo_cfg demo_ext demo_schedule (seed [''light'', ''dark'', ''cycle'']) = [1, 2] \<and>
   all_citations demo_run = [2, 1] \<and>
   sorted_wrt (<) (assignment_order demo_cfg demo_ext demo_schedule
                     (seed [''light'', ''dark'', ''cycle''])) \<and>
   distinct (all_citations demo_run) \<and>
   set (all_citations demo_run) =
     set (assignment_order demo_cfg demo_ext demo_schedule (seed [''light'', ''dark'', ''cycle'']))"
proof -
  note c3 = citation_ids_unique_increasing [of demo_cfg demo_ext demo_schedule "[''light'', ''dark'', ''cycle'']" 0 "[]",
      folded demo_run_def]
  from c3 have "sorted_wrt (<) (assignment_order demo_cfg demo_ext demo_schedule
                     (seed [''light'', ''dark'', ''cycle'']))"
    by (rule conjunct1)
  moreover from c3 have "distinct (all_citations demo_run)"
    by (rule conjunct2 [THEN conjunct1])
  moreover from c3 have "set (all_citations demo_run) =
     set (assignment_order demo_cfg demo_ext demo_schedule (seed [''light'', ''dark'', ''cycle'']))"
    by (rule conjunct2 [THEN conjunct2, THEN conjunct1])
  ultimately show ?thesis
    using demo_order demo_citations by (intro conjI)
qed

subsection \<open>Events of one block\<close>

text \<open>
  Appending to a valid path, the events one agent step publishes, the events each
  action adds to the stream of a block, and the preservation of \<open>queue_ok\<close> and
  \<open>events_ok\<close> by every action. A terminal block is touched by no action: its agent
  is idle, the scheduler dispatches pending blocks only, and cancellation fails
  non-terminal blocks only.
\<close>

lemma valid_from_append:
  "valid_from p (xs @ ys) =
     (valid_from p xs \<and> valid_from (if xs = [] then p else Some (last xs)) ys)"
  by (induction xs arbitrary: p) auto

lemma valid_path_append:
  "valid_path (xs @ ys) = (valid_path xs \<and> valid_from (last_event xs) ys)"
  by (simp add: valid_path_def valid_from_append last_event_def)

lemma research_agent_published:
  assumes "status blk = Researching" "expected_after (position blk) prev"
  shows "valid_from prev (published (research_agent cfg r cid blk)) \<and>
         published (research_agent cfg r cid blk) \<noteq> [] \<and>
         status (updated (research_agent cfg r cid blk)) \<noteq> Pending \<and>
         (status (updated (research_agent cfg r cid blk)) = Researching \<longrightarrow>
            expected_after (position (updated (research_agent cfg r cid blk)))
              (Some (last (published (research_agent cfg r cid blk)))))"
proof (cases "position blk")
  case CheckingSufficiency
  with assms show ?thesis
    by (auto simp: agent_defs follows_def split: agent_splits)
next
  case GeneratingQuery
  with assms show ?thesis
    by (auto simp: agent_defs follows_def split: agent_splits)
next
  case ToolCalling
  with assms show ?thesis
    by (auto simp: agent_defs follows_def split: agent_splits)
next
  case ProcessingNotes
  with assms show ?thesis
    by (auto simp: agent_defs follows_def split: agent_splits)
next
  case IterationCompleted
  with assms show ?thesis
    by (auto simp: agent_defs follows_def split: agent_splits)
qed

lemma agent_part_append [simp]: "agent_part (xs @ ys) = agent_part xs @ agent_part ys"
  by (induction xs rule: agent_part.induct) simp_all

lemma agent_part_Agent [simp]: "agent_part (map Agent es) = es"
  by (induction es) simp_all

lemma agent_part_report [simp]: "agent_part (scheduler_report blk) = []"
  by (cases "status blk") (simp_all add: scheduler_report_def)

lemma block_events_agent_step:
  assumes "b < length (blocks s)" "status (blocks s ! b) = Researching"
  shows "block_events c (agent_step cfg ext b s) =
           block_events c s @
           (if c = b
            then map Agent (published (agent_turn cfg ext b s)) @
                 scheduler_report (updated (agent_turn cfg ext b s))
            else [])"
  using assms by (simp add: block_events_def events_agent_step comp_def)

lemma queue_dispatch:
  "dispatch cfg s = s \<or>
   (\<exists>b rest. queue s = b # rest \<and> queue (dispatch cfg s) = rest \<and>
      blocks (dispatch cfg s) =
        (blocks s)[b := loop_head cfg ((blocks s ! b)\<lparr>status := Researching\<rparr>)] \<and>
      (\<forall>c. block_events c (dispatch cfg s) =
             block_events c s @
             (if c = b
              then block_started #
                   scheduler_report (loop_head cfg ((blocks s ! b)\<lparr>status := Researching\<rparr>))
              else [])))"
  by (simp add: dispatch_def put_block_def publish_def Let_def block_events_def comp_def
      split: list.splits)

lemma only_index: "filter (\<lambda>b. P b \<and> b = c) [0..<n] = (if c < n \<and> P c then [c] else [])"
  by (induction n) (auto simp: less_Suc_eq)

lemma block_events_cancel:
  "block_events c (cancel s) =
     block_events c s @
     (if c < length (blocks s) \<and> non_terminal (blocks s ! c) then [block_failed] else [])"
  by (simp add: block_events_def cancel_def filter_map comp_def only_index)

lemma agent_events_cancel [simp]: "agent_events c (cancel s) = agent_events c s"
  by (simp add: agent_events_def block_events_cancel)

lemma queue_ok_dispatch:
  assumes "queue_ok s"
  shows "queue_ok (dispatch cfg s)"
proof -
  from queue_dispatch [of cfg s] show ?thesis
  proof
    assume "dispatch cfg s = s"
    with assms show ?thesis by simp
  next
    assume "\<exists>b rest. queue s = b # rest \<and> queue (dispatch cfg s) = rest \<and>
      blocks (dispatch cfg s) =
        (blocks s)[b := loop_head cfg ((blocks s ! b)\<lparr>status := Researching\<rparr>)] \<and>
      (\<forall>c. block_events c (dispatch cfg s) =
             block_events c s @
             (if c = b
              then block_started #
                   scheduler_report (loop_head cfg ((blocks s ! b)\<lparr>status := Researching\<rparr>))
              else []))"
    then obtain b rest where q: "queue s = b # rest" "queue (dispatch cfg s) = rest"
      and bl: "blocks (dispatch cfg s) =
        (blocks s)[b := loop_head cfg ((blocks s ! b)\<lparr>status := Researching\<rparr>)]"
      by blast
    from assms q have "distinct rest" "b \<notin> set rest"
      and all: "\<forall>c \<in> set rest. c < length (blocks s) \<and> status (blocks s ! c) = Pending"
      by (simp_all add: queue_ok_def)
    moreover from \<open>b \<notin> set rest\<close> have "\<And>c. c \<in> set rest \<Longrightarrow> b \<noteq> c"
      by auto
    ultimately show ?thesis
      unfolding queue_ok_def q bl by simp
  qed
qed

lemma queue_ok_agent_step:
  assumes "queue_ok s"
  shows "queue_ok (agent_step cfg ext b s)"
proof (cases "b < length (blocks s) \<and> status (blocks s ! b) = Researching")
  case False
  with assms show ?thesis by (simp add: agent_step_idle)
next
  case True
  from assms True have nb: "\<And>c. c \<in> set (queue s) \<Longrightarrow> b \<noteq> c"
    by (auto simp: queue_ok_def)
  show ?thesis
  proof (cases "discovered (agent_turn cfg ext b s)")
    case None
    with assms True nb show ?thesis
      by (auto simp: queue_ok_def blocks_agent_step queue_agent_step)
  next
    case (Some t)
    with assms True nb show ?thesis
      by (auto simp: queue_ok_def blocks_agent_step queue_agent_step nth_append new_block_def)
  qed
qed

lemma queue_ok_cancel: "queue_ok (cancel s)"
  by (simp add: queue_ok_def cancel_def)

lemma queue_ok_perform: "queue_ok s \<Longrightarrow> queue_ok (perform cfg ext a s)"
  by (cases a) (simp_all add: queue_ok_dispatch queue_ok_agent_step queue_ok_cancel)

lemma queue_ok_run: "queue_ok s \<Longrightarrow> queue_ok (run cfg ext sched s)"
  by (induction sched arbitrary: s) (simp_all add: queue_ok_perform)

lemma queue_ok_seed: "queue_ok (seed topics)"
  by (simp add: queue_ok_def seed_def new_block_def)

lemma events_ok_valid: "events_ok s \<Longrightarrow> valid_path (agent_events b s)"
  unfolding events_ok_def by blast

lemma events_ok_inside:
  "events_ok s \<Longrightarrow> b < length (blocks s) \<Longrightarrow> block_agrees (blocks s ! b) (block_events b s)"
  unfolding events_ok_def by (metis (full_types))

lemma events_ok_outside:
  "events_ok s \<Longrightarrow> \<not> b < length (blocks s) \<Longrightarrow> block_events b s = []"
  unfolding events_ok_def by (metis (full_types))

lemma events_okI:
  assumes "\<And>c. valid_path (agent_events c s)"
    and "\<And>c. c < length (blocks s) \<Longrightarrow> block_agrees (blocks s ! c) (block_events c s)"
    and "\<And>c. \<not> c < length (blocks s) \<Longrightarrow> block_events c s = []"
  shows "events_ok s"
  unfolding events_ok_def using assms by simp

lemma block_agrees_new: "block_agrees (new_block t) []"
  by (simp add: block_agrees_def framed_def new_block_def)

lemma events_ok_agent_step:
  assumes "events_ok s"
  shows "events_ok (agent_step cfg ext b s)"
proof (cases "b < length (blocks s) \<and> status (blocks s ! b) = Researching")
  case False
  with assms show ?thesis by (simp add: agent_step_idle)
next
  case True
  define out where "out = agent_turn cfg ext b s"
  define s' where "s' = agent_step cfg ext b s"
  define ap where "ap = agent_events b s"
  have out: "out = research_agent cfg (ext b (iteration_count (blocks s ! b)))
                     (citation_counter s + 1) (blocks s ! b)"
    by (simp add: out_def agent_turn_def Let_def)
  from events_ok_inside [OF assms conjunct1 [OF True]] True
  have framing: "block_events b s = block_started # map Agent ap"
    and expected: "expected_after (position (blocks s ! b)) (last_event ap)"
    by (simp_all add: block_agrees_def framed_def agent_events_def ap_def)
  from assms have path: "valid_path ap"
    unfolding ap_def by (rule events_ok_valid)
  from research_agent_published [OF conjunct2 [OF True] expected, of cfg
      "ext b (iteration_count (blocks s ! b))" "citation_counter s + 1"]
  have pub: "valid_from (last_event ap) (published out)"
      "published out \<noteq> []"
      "status (updated out) \<noteq> Pending"
      "status (updated out) = Researching \<longrightarrow>
         expected_after (position (updated out)) (Some (last (published out)))"
    unfolding out by simp_all
  have blocks': "blocks s' =
      (blocks s)[b := updated out] @
      (case discovered out of None \<Rightarrow> [] | Some t \<Rightarrow> [new_block t])"
    using True by (simp add: s'_def out_def blocks_agent_step)
  have events': "block_events c s' =
      block_events c s @
      (if c = b then map Agent (published out) @ scheduler_report (updated out) else [])"
    for c
    using True by (simp add: s'_def out_def block_events_agent_step)
  have here: "block_events b s' =
      block_started # map Agent (ap @ published out) @ scheduler_report (updated out)"
    by (simp add: events' framing)
  then have agents: "agent_events b s' = ap @ published out"
    by (simp add: agent_events_def)
  have "events_ok s'"
  proof (rule events_okI)
    fix c
    show "valid_path (agent_events c s')"
    proof (cases "c = b")
      case True
      with path pub(1) show ?thesis
        by (simp add: agents valid_path_append)
    next
      case False
      with assms show ?thesis
        by (simp add: agent_events_def events' events_ok_valid [unfolded agent_events_def])
    qed
  next
    fix c
    assume inside: "c < length (blocks s')"
    show "block_agrees (blocks s' ! c) (block_events c s')"
    proof (cases "c = b")
      case same: True
      have "blocks s' ! b = updated out"
        using True by (simp add: blocks' nth_append)
      moreover have "block_agrees (updated out) (block_events b s')"
        using pub(2,3,4)
        by (cases "status (updated out)")
          (simp_all add: block_agrees_def framed_def here scheduler_report_def last_event_def)
      ultimately show ?thesis
        using same by simp
    next
      case other: False
      then have ev: "block_events c s' = block_events c s"
        by (simp add: events')
      show ?thesis
      proof (cases "c < length (blocks s)")
        case True
        with other have "blocks s' ! c = blocks s ! c"
          by (simp add: blocks' nth_append)
        with events_ok_inside [OF assms True] show ?thesis
          by (simp add: ev)
      next
        case False
        with inside obtain t where "discovered out = Some t" "c = length (blocks s)"
          by (auto simp: blocks' split: option.splits)
        then have "blocks s' ! c = new_block t"
          by (simp add: blocks' nth_append)
        with events_ok_outside [OF assms False] show ?thesis
          by (simp add: ev block_agrees_new)
      qed
    qed
  next
    fix c
    assume outside: "\<not> c < length (blocks s')"
    then have "\<not> c < length (blocks s)" "c \<noteq> b"
      using True by (auto simp: blocks')
    with events_ok_outside [OF assms, of c] show "block_events c s' = []"
      by (simp add: events')
  qed
  then show ?thesis
    by (simp add: s'_def)
qed

lemma loop_head_agrees:
  "block_agrees (loop_head cfg (blk\<lparr>status := Researching\<rparr>))
     (block_started # scheduler_report (loop_head cfg (blk\<lparr>status := Researching\<rparr>)))"
  by (simp add: block_agrees_def framed_def loop_head_def think_def last_event_def
      scheduler_report_def)

lemma events_ok_dispatch:
  assumes "events_ok s" "queue_ok s"
  shows "events_ok (dispatch cfg s)"
proof -
  from queue_dispatch [of cfg s] show ?thesis
  proof
    assume "dispatch cfg s = s"
    with assms show ?thesis by simp
  next
    assume "\<exists>b rest. queue s = b # rest \<and> queue (dispatch cfg s) = rest \<and>
      blocks (dispatch cfg s) =
        (blocks s)[b := loop_head cfg ((blocks s ! b)\<lparr>status := Researching\<rparr>)] \<and>
      (\<forall>c. block_events c (dispatch cfg s) =
             block_events c s @
             (if c = b
              then block_started #
                   scheduler_report (loop_head cfg ((blocks s ! b)\<lparr>status := Researching\<rparr>))
              else []))"
    then obtain b rest where q: "queue s = b # rest"
      and bl: "blocks (dispatch cfg s) =
        (blocks s)[b := loop_head cfg ((blocks s ! b)\<lparr>status := Researching\<rparr>)]"
      and ev: "\<And>c. block_events c (dispatch cfg s) =
             block_events c s @
             (if c = b
              then block_started #
                   scheduler_report (loop_head cfg ((blocks s ! b)\<lparr>status := Researching\<rparr>))
              else [])"
      by blast
    from assms(2) q have b: "b < length (blocks s)" "status (blocks s ! b) = Pending"
      by (simp_all add: queue_ok_def)
    with events_ok_inside [OF assms(1), of b] have empty: "block_events b s = []"
      by (simp add: block_agrees_def framed_def)
    show ?thesis
    proof (rule events_okI)
      fix c
      show "valid_path (agent_events c (dispatch cfg s))"
      proof (cases "c = b")
        case True
        then show ?thesis
          by (simp add: agent_events_def ev empty valid_path_def)
      next
        case False
        with assms(1) show ?thesis
          by (simp add: agent_events_def ev events_ok_valid [unfolded agent_events_def])
      qed
    next
      fix c
      assume "c < length (blocks (dispatch cfg s))"
      then have inside: "c < length (blocks s)"
        by (simp add: bl)
      show "block_agrees (blocks (dispatch cfg s) ! c) (block_events c (dispatch cfg s))"
      proof (cases "c = b")
        case True
        with b show ?thesis
          by (simp add: bl ev empty loop_head_agrees)
      next
        case False
        with events_ok_inside [OF assms(1) inside] show ?thesis
          by (simp add: bl ev)
      qed
    next
      fix c
      assume "\<not> c < length (blocks (dispatch cfg s))"
      then have "\<not> c < length (blocks s)"
        by (simp add: bl)
      with events_ok_outside [OF assms(1), of c] b(1) show "block_events c (dispatch cfg s) = []"
        by (auto simp: ev)
    qed
  qed
qed

lemma cancel_block_agrees:
  assumes "block_agrees blk evs"
  shows "block_agrees (cancel_block blk)
           (evs @ (if non_terminal blk then [block_failed] else []))"
proof (cases "status blk")
  case Pending
  with assms show ?thesis
    by (simp add: block_agrees_def framed_def cancel_block_def non_terminal_def fail_block_def
        think_def)
next
  case Researching
  with assms have "evs = block_started # map Agent (agent_part evs)"
    by (simp add: block_agrees_def framed_def)
  then have "evs @ [block_failed] =
      block_started # map Agent (agent_part (evs @ [block_failed])) @ [block_failed]"
    by simp
  with Researching show ?thesis
    by (simp add: block_agrees_def framed_def cancel_block_def non_terminal_def fail_block_def
        think_def del: agent_part_append)
next
  case Completed
  with assms show ?thesis
    by (simp add: cancel_block_def non_terminal_def)
next
  case Failed
  with assms show ?thesis
    by (simp add: cancel_block_def non_terminal_def)
qed

lemma events_ok_cancel:
  assumes "events_ok s"
  shows "events_ok (cancel s)"
proof (rule events_okI)
  fix c
  from assms show "valid_path (agent_events c (cancel s))"
    by (simp add: events_ok_valid)
next
  fix c
  assume "c < length (blocks (cancel s))"
  then have inside: "c < length (blocks s)"
    by simp
  from cancel_block_agrees [OF events_ok_inside [OF assms inside]] inside
  show "block_agrees (blocks (cancel s) ! c) (block_events c (cancel s))"
    by (simp add: block_events_cancel)
next
  fix c
  assume "\<not> c < length (blocks (cancel s))"
  then have "\<not> c < length (blocks s)"
    by simp
  with events_ok_outside [OF assms, of c] show "block_events c (cancel s) = []"
    by (simp add: block_events_cancel)
qed

lemma events_ok_perform:
  "events_ok s \<Longrightarrow> queue_ok s \<Longrightarrow> events_ok (perform cfg ext a s)"
  by (cases a) (simp_all add: events_ok_dispatch events_ok_agent_step events_ok_cancel)

lemma events_ok_run:
  "events_ok s \<Longrightarrow> queue_ok s \<Longrightarrow> events_ok (run cfg ext sched s)"
  by (induction sched arbitrary: s) (simp_all add: events_ok_perform queue_ok_perform)

lemma events_ok_seed: "events_ok (seed topics)"
  by (rule events_okI)
    (simp_all add: agent_events_def block_events_def seed_def valid_path_def block_agrees_def
      framed_def new_block_def)

lemma terminal_perform:
  assumes "queue_ok s" "terminal b s"
  shows "terminal b (perform cfg ext a s) \<and>
         block_events b (perform cfg ext a s) = block_events b s \<and>
         blocks (perform cfg ext a s) ! b = blocks s ! b"
proof (cases a)
  case Dispatch
  from queue_dispatch [of cfg s] show ?thesis
  proof
    assume "dispatch cfg s = s"
    with assms Dispatch show ?thesis by simp
  next
    assume "\<exists>q rest. queue s = q # rest \<and> queue (dispatch cfg s) = rest \<and>
      blocks (dispatch cfg s) =
        (blocks s)[q := loop_head cfg ((blocks s ! q)\<lparr>status := Researching\<rparr>)] \<and>
      (\<forall>c. block_events c (dispatch cfg s) =
             block_events c s @
             (if c = q
              then block_started #
                   scheduler_report (loop_head cfg ((blocks s ! q)\<lparr>status := Researching\<rparr>))
              else []))"
    then obtain q rest where q: "queue s = q # rest"
      and bl: "blocks (dispatch cfg s) =
        (blocks s)[q := loop_head cfg ((blocks s ! q)\<lparr>status := Researching\<rparr>)]"
      and ev: "\<And>c. block_events c (dispatch cfg s) =
             block_events c s @
             (if c = q
              then block_started #
                   scheduler_report (loop_head cfg ((blocks s ! q)\<lparr>status := Researching\<rparr>))
              else [])"
      by blast
    from assms(1) q have "status (blocks s ! q) = Pending"
      by (simp add: queue_ok_def)
    with assms(2) have "q \<noteq> b"
      by (auto simp: terminal_def)
    with assms(2) Dispatch show ?thesis
      by (simp add: terminal_def bl ev)
  qed
next
  case (Step c)
  show ?thesis
  proof (cases "c < length (blocks s) \<and> status (blocks s ! c) = Researching")
    case False
    with assms Step show ?thesis by (simp add: agent_step_idle)
  next
    case True
    with assms(2) have "c \<noteq> b"
      by (auto simp: terminal_def)
    with assms(2) True Step show ?thesis
      by (simp add: terminal_def blocks_agent_step block_events_agent_step nth_append)
  qed
next
  case Cancel
  from assms(2) have "\<not> non_terminal (blocks s ! b)" "b < length (blocks s)"
    by (auto simp: terminal_def non_terminal_def)
  with assms(2) Cancel show ?thesis
    by (simp add: terminal_def block_events_cancel cancel_block_def)
qed

lemma terminal_run:
  assumes "queue_ok s" "terminal b s"
  shows "terminal b (run cfg ext sched s) \<and>
         block_events b (run cfg ext sched s) = block_events b s \<and>
         blocks (run cfg ext sched s) ! b = blocks s ! b"
  using assms
proof (induction sched arbitrary: s)
  case Nil
  then show ?case by simp
next
  case (Cons a sched)
  from terminal_perform [OF Cons.prems, of cfg ext a]
    Cons.IH [OF queue_ok_perform [OF Cons.prems(1), of cfg ext a]]
  show ?case by simp
qed




subsection \<open>Iteration budget and failure\<close>

text \<open>
  Preservation of \<open>budgets_ok\<close> by every action, and termination of the agent loop:
  each step of a researching block ends the block or decreases \<open>remaining\<close>.
\<close>

lemma with_retry_Fails: "with_retry c = Fails \<longleftrightarrow> c = (Fails, Fails)"
  by (cases c) (auto simp: with_retry_def split: call.splits)

lemma research_agent_budget:
  assumes "status blk = Researching" "iteration_count blk < max_iterations cfg"
  shows "budget_ok cfg ext canc b
           (updated (research_agent cfg (ext b (iteration_count blk)) cid blk))"
proof (cases "position blk")
  case CheckingSufficiency
  with assms show ?thesis
    by (auto simp: agent_defs budget_ok_def failed_twice_def with_retry_Fails
        split: agent_splits)
next
  case GeneratingQuery
  with assms show ?thesis
    by (auto simp: agent_defs budget_ok_def failed_twice_def with_retry_Fails
        split: agent_splits)
next
  case ToolCalling
  with assms show ?thesis
    by (auto simp: agent_defs budget_ok_def failed_twice_def with_retry_Fails
        split: agent_splits)
next
  case ProcessingNotes
  with assms show ?thesis
    by (auto simp: agent_defs budget_ok_def failed_twice_def with_retry_Fails
        split: agent_splits)
next
  case IterationCompleted
  with assms show ?thesis
    by (auto simp: agent_defs budget_ok_def partial_knowledge_note_def)
qed

lemma budgets_ok_agent_step:
  assumes "budgets_ok cfg ext s"
  shows "budgets_ok cfg ext (agent_step cfg ext b s)"
proof (cases "b < length (blocks s) \<and> status (blocks s ! b) = Researching")
  case False
  with assms show ?thesis by (simp add: agent_step_idle)
next
  case True
  with assms have "iteration_count (blocks s ! b) < max_iterations cfg"
    by (auto simp: budgets_ok_def budget_ok_def)
  with True have new: "budget_ok cfg ext (cancelled s) b (updated (agent_turn cfg ext b s))"
    by (simp add: agent_turn_def Let_def research_agent_budget)
  have "budget_ok cfg ext (cancelled s) c (blocks (agent_step cfg ext b s) ! c)"
    if "c < length (blocks (agent_step cfg ext b s))" for c
  proof (cases "c = b")
    case True
    with \<open>b < length (blocks s) \<and> status (blocks s ! b) = Researching\<close> new show ?thesis
      by (simp add: blocks_agent_step nth_append)
  next
    case False
    show ?thesis
    proof (cases "c < length (blocks s)")
      case True
      with assms have "budget_ok cfg ext (cancelled s) c (blocks s ! c)"
        by (simp add: budgets_ok_def)
      with True False \<open>b < length (blocks s) \<and> status (blocks s ! b) = Researching\<close>
      show ?thesis
        by (simp add: blocks_agent_step nth_append)
    next
      case False
      with that \<open>b < length (blocks s) \<and> status (blocks s ! b) = Researching\<close>
      obtain t where "discovered (agent_turn cfg ext b s) = Some t" "c = length (blocks s)"
        by (auto simp: blocks_agent_step split: option.splits)
      with \<open>b < length (blocks s) \<and> status (blocks s ! b) = Researching\<close> show ?thesis
        by (simp add: blocks_agent_step nth_append budget_ok_def new_block_def)
    qed
  qed
  then show ?thesis
    unfolding budgets_ok_def by simp
qed

lemma loop_head_budget:
  assumes "iteration_count blk = 0"
  shows "budget_ok cfg ext canc b (loop_head cfg (blk\<lparr>status := Researching\<rparr>))"
  using assms by (simp add: budget_ok_def loop_head_def think_def partial_knowledge_note_def)

lemma budgets_ok_dispatch:
  assumes "budgets_ok cfg ext s" "queue_ok s"
  shows "budgets_ok cfg ext (dispatch cfg s)"
proof -
  from blocks_dispatch [of cfg s] show ?thesis
  proof
    assume "blocks (dispatch cfg s) = blocks s"
    with assms show ?thesis by (simp add: budgets_ok_def)
  next
    assume "\<exists>b rest. queue s = b # rest \<and>
      blocks (dispatch cfg s) =
        (blocks s)[b := loop_head cfg ((blocks s ! b)\<lparr>status := Researching\<rparr>)]"
    then obtain b rest where q: "queue s = b # rest"
      and bl: "blocks (dispatch cfg s) =
        (blocks s)[b := loop_head cfg ((blocks s ! b)\<lparr>status := Researching\<rparr>)]"
      by blast
    from assms(2) q have b: "b < length (blocks s)" "status (blocks s ! b) = Pending"
      by (simp_all add: queue_ok_def)
    with assms(1) have "iteration_count (blocks s ! b) = 0"
      by (auto simp: budgets_ok_def budget_ok_def)
    then have new: "budget_ok cfg ext (cancelled s) b
                      (loop_head cfg ((blocks s ! b)\<lparr>status := Researching\<rparr>))"
      by (rule loop_head_budget)
    have "budget_ok cfg ext (cancelled s) c (blocks (dispatch cfg s) ! c)"
      if "c < length (blocks s)" for c
    proof (cases "c = b")
      case True
      with b new show ?thesis by (simp add: bl)
    next
      case False
      with assms(1) that show ?thesis by (simp add: bl budgets_ok_def)
    qed
    then show ?thesis
      unfolding budgets_ok_def by simp
  qed
qed

lemma cancel_block_budget:
  assumes "budget_ok cfg ext canc b blk"
  shows "budget_ok cfg ext True b (cancel_block blk)"
proof (cases "status blk")
  case Pending
  with assms show ?thesis
    by (simp add: budget_ok_def cancel_block_def non_terminal_def fail_block_def think_def
        cancellation_note_def)
next
  case Researching
  with assms show ?thesis
    by (simp add: budget_ok_def cancel_block_def non_terminal_def fail_block_def think_def
        cancellation_note_def)
next
  case Completed
  with assms show ?thesis
    by (simp add: budget_ok_def cancel_block_def non_terminal_def)
next
  case Failed
  with assms show ?thesis
    by (auto simp: budget_ok_def cancel_block_def non_terminal_def)
qed

lemma budgets_ok_cancel:
  assumes "budgets_ok cfg ext s"
  shows "budgets_ok cfg ext (cancel s)"
proof -
  have "cancelled (cancel s)"
    by (simp add: cancel_def)
  moreover have "budget_ok cfg ext True b (cancel_block (blocks s ! b))"
    if "b < length (blocks s)" for b
    using assms that by (intro cancel_block_budget [of cfg ext "cancelled s"]) (simp add: budgets_ok_def)
  ultimately show ?thesis
    by (simp add: budgets_ok_def cancel_def)
qed

lemma budgets_ok_perform:
  "budgets_ok cfg ext s \<Longrightarrow> queue_ok s \<Longrightarrow> budgets_ok cfg ext (perform cfg ext a s)"
  by (cases a) (simp_all add: budgets_ok_dispatch budgets_ok_agent_step budgets_ok_cancel)

lemma budgets_ok_run:
  "budgets_ok cfg ext s \<Longrightarrow> queue_ok s \<Longrightarrow> budgets_ok cfg ext (run cfg ext sched s)"
  by (induction sched arbitrary: s) (simp_all add: budgets_ok_perform queue_ok_perform)

lemma budgets_ok_seed: "budgets_ok cfg ext (seed topics)"
  by (simp add: budgets_ok_def budget_ok_def seed_def new_block_def)

lemma research_agent_progress:
  assumes "status blk = Researching" "iteration_count blk < max_iterations cfg"
  shows "status (updated (research_agent cfg r cid blk)) = Completed \<or>
         status (updated (research_agent cfg r cid blk)) = Failed \<or>
         (status (updated (research_agent cfg r cid blk)) = Researching \<and>
          iteration_count (updated (research_agent cfg r cid blk)) < max_iterations cfg \<and>
          remaining cfg (updated (research_agent cfg r cid blk)) < remaining cfg blk)"
proof (cases "position blk")
  case CheckingSufficiency
  with assms show ?thesis
    by (auto simp: agent_defs remaining_def split: agent_splits)
next
  case GeneratingQuery
  with assms show ?thesis
    by (auto simp: agent_defs remaining_def split: agent_splits)
next
  case ToolCalling
  with assms show ?thesis
    by (auto simp: agent_defs remaining_def split: agent_splits)
next
  case ProcessingNotes
  with assms show ?thesis
    by (auto simp: agent_defs remaining_def split: agent_splits)
next
  case IterationCompleted
  with assms show ?thesis
    by (auto simp: agent_defs remaining_def)
qed

lemma run_idle:
  "\<not> (b < length (blocks s) \<and> status (blocks s ! b) = Researching) \<Longrightarrow>
   run cfg ext (replicate n (Step b)) s = s"
  by (induction n) (simp_all add: agent_step_idle)

lemma agent_terminates:
  assumes "b < length (blocks s)" "status (blocks s ! b) = Researching"
    "iteration_count (blocks s ! b) < max_iterations cfg"
    "remaining cfg (blocks s ! b) \<le> n"
  shows "terminal b (run cfg ext (replicate n (Step b)) s)"
  using assms
proof (induction n arbitrary: s)
  case 0
  then show ?case
    by (simp add: remaining_def) (cases "position (blocks s ! b)"; simp)
next
  case (Suc n)
  let ?s' = "agent_step cfg ext b s"
  let ?blk' = "updated (agent_turn cfg ext b s)"
  have len: "b < length (blocks ?s')" and nth: "blocks ?s' ! b = ?blk'"
    using Suc.prems(1,2) by (simp_all add: blocks_agent_step nth_append)
  from research_agent_progress [OF Suc.prems(2,3), of "ext b (iteration_count (blocks s ! b))"
      "citation_counter s + 1"]
  have "status ?blk' = Completed \<or> status ?blk' = Failed \<or>
        (status ?blk' = Researching \<and> iteration_count ?blk' < max_iterations cfg \<and>
         remaining cfg ?blk' < remaining cfg (blocks s ! b))"
    by (simp add: agent_turn_def Let_def)
  then show ?case
  proof (elim disjE conjE)
    assume "status ?blk' = Completed"
    with len nth show ?thesis
      by (simp add: run_idle terminal_def)
  next
    assume "status ?blk' = Failed"
    with len nth show ?thesis
      by (simp add: run_idle terminal_def)
  next
    assume "status ?blk' = Researching" "iteration_count ?blk' < max_iterations cfg"
      "remaining cfg ?blk' < remaining cfg (blocks s ! b)"
    with len nth Suc.prems(4) Suc.IH [of ?s'] show ?thesis
      by simp
  qed
qed

lemma remaining_bound: "remaining cfg blk \<le> 5 * max_iterations cfg"
  by (simp add: remaining_def)




end
